theory Spec2Isabelle
  imports Main "HOL-Library.Monad_Syntax" "HOL-Library.Multiset"
begin

section \<open>TaskPilot: command interpretation and task-list reconciliation (main.py)\<close>

subsection \<open>Text\<close>

text \<open>
  A Python \<open>str\<close> is modelled as a \<open>string\<close>: a list of 8-bit characters read as
  the code points U+0000..U+00FF. \<open>is_space\<close> is the predicate behind both
  \<open>str.strip()\<close> and the regular expression class \<open>\s\<close> on that range.
\<close>

definition is_space :: "char \<Rightarrow> bool" where
  "is_space c = (c \<in> set [CHR 0x09, CHR 0x0A, CHR 0x0B, CHR 0x0C, CHR 0x0D,
                           CHR 0x1C, CHR 0x1D, CHR 0x1E, CHR 0x1F, CHR 0x20,
                           CHR 0x85, CHR 0xA0])"

definition lower_char :: "char \<Rightarrow> char" where
  "lower_char c =
     (let n = (of_char c :: nat)
      in if (65 \<le> n \<and> n \<le> 90) \<or> (192 \<le> n \<and> n \<le> 214) \<or> (216 \<le> n \<and> n \<le> 222)
         then char_of (n + 32) else c)"

definition lower :: "string \<Rightarrow> string" where
  "lower s = map lower_char s"

definition lstrip :: "string \<Rightarrow> string" where
  "lstrip s = dropWhile is_space s"

definition rstrip :: "string \<Rightarrow> string" where
  "rstrip s = rev (dropWhile is_space (rev s))"

definition strip :: "string \<Rightarrow> string" where
  "strip s = rstrip (lstrip s)"

definition starts_with :: "string \<Rightarrow> string \<Rightarrow> bool" where
  "starts_with p s = (take (length p) s = p)"

text \<open>\<open>contains p s\<close> is Python's \<open>p in s\<close>.\<close>

fun contains :: "string \<Rightarrow> string \<Rightarrow> bool" where
  "contains p [] = (p = [])"
| "contains p (c # cs) = (starts_with p (c # cs) \<or> contains p cs)"

text \<open>
  \<open>split_at p s\<close> cuts \<open>s\<close> at the leftmost occurrence of the non-empty text \<open>p\<close>:
  the text before it and the text after it.
\<close>

fun split_at :: "string \<Rightarrow> string \<Rightarrow> (string \<times> string) option" where
  "split_at p [] = (if p = [] then Some ([], []) else None)"
| "split_at p (c # cs) =
     (if starts_with p (c # cs) then Some ([], drop (length p) (c # cs))
      else (case split_at p cs of
              None \<Rightarrow> None
            | Some (before, after) \<Rightarrow> Some (c # before, after)))"

text \<open>\<open>split_comma s\<close> is \<open>s.split(",")\<close>.\<close>

fun split_comma :: "string \<Rightarrow> string list" where
  "split_comma [] = [[]]"
| "split_comma (c # cs) =
     (if c = CHR '','' then [] # split_comma cs
      else (case split_comma cs of
              [] \<Rightarrow> [[c]]
            | w # ws \<Rightarrow> (c # w) # ws))"

subsection \<open>Models\<close>

datatype Priority = LOW | MEDIUM | HIGH | URGENT

datatype TaskStatus = TODO | IN_PROGRESS | DONE

text \<open>The field \<open>id\<close> of the source is \<open>task_id\<close> here.\<close>

record Task =
  task_id :: "int option"
  title :: string
  description :: "string option"
  priority :: Priority
  due_date :: "string option"
  status :: TaskStatus
  tags :: "string list"
  created_at :: "string option"

text \<open>
  What \<open>json.loads\<close> returns: \<open>None\<close>, a bool, an int, a float (kept as its literal),
  a str, a list or a dict (an association list, keys distinct).
\<close>

datatype json =
    JNull
  | JBool bool
  | JInt int
  | JFloat string
  | JStr string
  | JArr "json list"
  | JObj "(string \<times> json) list"

text \<open>
  The value under the key \<open>tasks\<close> of an interpreter result: a Python list of
  \<open>Task\<close> objects, or a value decoded from JSON text.
\<close>

datatype payload = Objects "Task list" | Decoded json

text \<open>An element met while iterating over such a value.\<close>

datatype element = TaskObject Task | Value json

text \<open>
  The dictionary returned by both interpreters. A failure result has no key \<open>action\<close>.
\<close>

record result =
  success :: bool
  message :: json
  tasks :: payload
  action :: "json option"

text \<open>The answer of \<open>TaskManager.process_command\<close>.\<close>

record response =
  r_success :: bool
  r_message :: json
  r_tasks :: "Task list"

text \<open>The state of a \<open>TaskManager\<close>.\<close>

record TaskManager =
  store :: "Task list"
  next_id :: int

text \<open>
  Library code that the source calls and that is not part of it: \<open>json.loads\<close>
  (\<open>None\<close> is \<open>JSONDecodeError\<close>) and what the validation library makes of a field
  value that is not already of the field's declared type (\<open>None\<close> is a validation error).
\<close>

record library =
  json_loads :: "string \<Rightarrow> json option"
  int_validator :: "json \<Rightarrow> int option"
  str_validator :: "json \<Rightarrow> string option"

datatype exn = TypeError string | AttributeError string

fun str_exn :: "exn \<Rightarrow> string" where
  "str_exn (TypeError m) = m"
| "str_exn (AttributeError m) = m"

fun type_name :: "json \<Rightarrow> string" where
  "type_name JNull = ''NoneType''"
| "type_name (JBool _) = ''bool''"
| "type_name (JInt _) = ''int''"
| "type_name (JFloat _) = ''float''"
| "type_name (JStr _) = ''str''"
| "type_name (JArr _) = ''list''"
| "type_name (JObj _) = ''dict''"

definition quote :: "string \<Rightarrow> string" where
  "quote s = CHR 0x27 # s @ [CHR 0x27]"

subsection \<open>LLM interpreter: \<open>LLMProcessor.process_command\<close>\<close>

text \<open>
  What the HTTP collaborator hands to the interpreter: an exception raised before the
  extraction starts (its text), a status other than 200 (the response text), or the
  text under the key \<open>response\<close> of a 200 answer.
\<close>

datatype llm_reply = CallRaised string | BadStatus string | ResponseText string

text \<open>
  \<open>re.search(r'```json\s*([\s\S]*?)\s*```', text)\<close>, group 1: after the leftmost
  \<open>```json\<close> the greedy \<open>\s*\<close> takes the whole run of whitespace, the lazy group
  stops as early as whitespace and \<open>```\<close> can follow, that is at the next \<open>```\<close>
  with the whitespace before it left out.
\<close>

definition fenced_block :: "string \<Rightarrow> string option" where
  "fenced_block text =
     (case split_at ''```json'' text of
        None \<Rightarrow> None
      | Some (_, rest) \<Rightarrow>
          (case split_at ''```'' (lstrip rest) of
             None \<Rightarrow> None
           | Some (body, _) \<Rightarrow> Some (rstrip body)))"

text \<open>
  \<open>re.search(r'(\{[\s\S]*\})', text)\<close>, group 1: from the leftmost \<open>{\<close>, greedily,
  to the last \<open>}\<close> of the text.
\<close>

definition brace_span :: "string \<Rightarrow> string option" where
  "brace_span text =
     (let r = dropWhile (\<lambda>c. c \<noteq> CHR ''{'') text
      in if CHR ''}'' \<in> set r
         then Some (rev (dropWhile (\<lambda>c. c \<noteq> CHR ''}'') (rev r)))
         else None)"

definition extract_json :: "string \<Rightarrow> string option" where
  "extract_json text =
     (case fenced_block text of
        Some json_str \<Rightarrow> Some json_str
      | None \<Rightarrow> brace_span text)"

definition failure :: "string \<Rightarrow> Task list \<Rightarrow> result" where
  "failure m ts = \<lparr>success = False, message = JStr m, tasks = Objects ts, action = None\<rparr>"

definition dict_get :: "(string \<times> json) list \<Rightarrow> string \<Rightarrow> json \<Rightarrow> json" where
  "dict_get d k dflt = (case map_of d k of None \<Rightarrow> dflt | Some v \<Rightarrow> v)"

definition llm_process_command :: "library \<Rightarrow> string \<Rightarrow> Task list \<Rightarrow> llm_reply \<Rightarrow> result" where
  "llm_process_command lib command ts reply =
     (case reply of
        CallRaised e \<Rightarrow> failure (''Error processing command: '' @ e) ts
      | BadStatus txt \<Rightarrow> failure (''LLM API error: '' @ txt) ts
      | ResponseText llm_response \<Rightarrow>
          (case extract_json llm_response of
             None \<Rightarrow> failure ''Failed to parse LLM response'' ts
           | Some json_str \<Rightarrow>
               (case json_loads lib json_str of
                  None \<Rightarrow> failure ''Failed to parse JSON from LLM response'' ts
                | Some (JObj parsed_response) \<Rightarrow>
                    \<lparr>success = True,
                     message = dict_get parsed_response ''message'' (JStr ''Command processed''),
                     tasks = (case map_of parsed_response ''tasks'' of
                                None \<Rightarrow> Objects ts
                              | Some v \<Rightarrow> Decoded v),
                     action = Some (dict_get parsed_response ''action'' (JStr ''LIST''))\<rparr>
                | Some v \<Rightarrow>
                    failure (''Error processing command: '' @
                             str_exn (AttributeError (quote (type_name v) @
                                        '' object has no attribute '' @ quote ''get''))) ts)))"

subsection \<open>Fallback interpreter: \<open>LLMProcessor.fallback_process\<close>\<close>

definition starts_with_ci :: "string \<Rightarrow> string \<Rightarrow> bool" where
  "starts_with_ci p s = (lower (take (length p) s) = p)"

definition space_first :: "string \<Rightarrow> bool" where
  "space_first s = (case s of [] \<Rightarrow> False | c # _ \<Rightarrow> is_space c)"

text \<open>\<open>re.sub(r'^(add|create)\s+', '', command, flags=re.IGNORECASE)\<close>.\<close>

definition strip_verb :: "string \<Rightarrow> string" where
  "strip_verb command =
     (if starts_with_ci ''add'' command \<and> space_first (drop 3 command)
      then dropWhile is_space (drop 3 command)
      else if starts_with_ci ''create'' command \<and> space_first (drop 6 command)
      then dropWhile is_space (drop 6 command)
      else command)"

text \<open>\<open>Task(id=i, title=t, created_at=now)\<close>: the other fields take their defaults.\<close>

definition new_task :: "int \<Rightarrow> string \<Rightarrow> string \<Rightarrow> Task" where
  "new_task i t now =
     \<lparr>task_id = Some i, title = t, description = None, priority = MEDIUM,
      due_date = None, status = TODO, tags = [], created_at = Some now\<rparr>"

definition priority_order :: "(Priority \<times> nat) list" where
  "priority_order = [(URGENT, 0), (HIGH, 1), (MEDIUM, 2), (LOW, 3)]"

definition sort_rank :: "Task \<Rightarrow> nat" where
  "sort_rank t = (case map_of priority_order (priority t) of None \<Rightarrow> 4 | Some n \<Rightarrow> n)"

definition showing_all :: "Task list \<Rightarrow> result" where
  "showing_all ts =
     \<lparr>success = True, message = JStr ''Showing all tasks'', tasks = Objects ts,
      action = Some (JStr ''LIST'')\<rparr>"

text \<open>
  \<open>fallback_process command now ts\<close>: \<open>now\<close> is the reading of the clock, \<open>ts\<close> the
  content of the list object passed as \<open>tasks\<close>. The function returns the result
  dictionary and the content of that same list object after the call
  (\<open>tasks.append\<close> changes it in place).
\<close>

definition fallback_process :: "string \<Rightarrow> string \<Rightarrow> Task list \<Rightarrow> result \<times> Task list" where
  "fallback_process command0 now ts =
     (let command = strip (lower command0)
      in if contains ''add'' command \<or> contains ''create'' command then
           (let title = strip (strip_verb command)
            in if title \<noteq> [] then
                 (let ts' = ts @ [new_task (int (length ts) + 1) title now]
                  in (\<lparr>success = True, message = JStr (''Added task: '' @ title),
                       tasks = Objects ts', action = Some (JStr ''ADD'')\<rparr>, ts'))
               else (showing_all ts, ts))
         else if contains ''list'' command then
           (\<lparr>success = True, message = JStr ''Here are your tasks'', tasks = Objects ts,
             action = Some (JStr ''LIST'')\<rparr>, ts)
         else if contains ''prioritize'' command \<or> contains ''sort'' command then
           (\<lparr>success = True, message = JStr ''Tasks sorted by priority'',
             tasks = Objects (sort_key sort_rank ts),
             action = Some (JStr ''PRIORITIZE'')\<rparr>, ts)
         else (showing_all ts, ts))"

subsection \<open>Task store: \<open>TaskManager\<close>\<close>

definition init_manager :: TaskManager where
  "init_manager = \<lparr>store = [], next_id = 1\<rparr>"

definition assign_task_id :: "TaskManager \<Rightarrow> Task \<Rightarrow> Task \<times> TaskManager" where
  "assign_task_id st t =
     (if task_id t = None
      then (t\<lparr>task_id := Some (next_id st)\<rparr>, st\<lparr>next_id := next_id st + 1\<rparr>)
      else (t, st))"

definition add_task :: "TaskManager \<Rightarrow> Task \<Rightarrow> Task \<times> TaskManager" where
  "add_task st t =
     (let (t', st') = assign_task_id st t
      in (t', st'\<lparr>store := store st' @ [t']\<rparr>))"

definition get_tasks :: "TaskManager \<Rightarrow> Task list" where
  "get_tasks st = store st"

definition get_task :: "TaskManager \<Rightarrow> int \<Rightarrow> Task option" where
  "get_task st i = find (\<lambda>t. task_id t = Some i) (store st)"

text \<open>\<open>not s\<close> for an optional string: \<open>None\<close> and the empty string are false.\<close>

definition truthy :: "string option \<Rightarrow> bool" where
  "truthy s = (case s of None \<Rightarrow> False | Some v \<Rightarrow> v \<noteq> [])"

fun update_first :: "int \<Rightarrow> Task \<Rightarrow> Task list \<Rightarrow> (Task \<times> Task list) option" where
  "update_first i u [] = None"
| "update_first i u (t # ts) =
     (if task_id t = Some i then
        (let u' = u\<lparr>task_id := Some i,
                    created_at := (if \<not> truthy (created_at u) then created_at t
                                   else created_at u)\<rparr>
         in Some (u', u' # ts))
      else (case update_first i u ts of
              None \<Rightarrow> None
            | Some (r, ts') \<Rightarrow> Some (r, t # ts')))"

definition update_task :: "TaskManager \<Rightarrow> int \<Rightarrow> Task \<Rightarrow> Task option \<times> TaskManager" where
  "update_task st i u =
     (case update_first i u (store st) of
        None \<Rightarrow> (None, st)
      | Some (r, ts') \<Rightarrow> (Some r, st\<lparr>store := ts'\<rparr>))"

fun delete_first :: "int \<Rightarrow> Task list \<Rightarrow> Task list option" where
  "delete_first i [] = None"
| "delete_first i (t # ts) =
     (if task_id t = Some i then Some ts
      else map_option ((#) t) (delete_first i ts))"

definition delete_task :: "TaskManager \<Rightarrow> int \<Rightarrow> bool \<times> TaskManager" where
  "delete_task st i =
     (case delete_first i (store st) of
        None \<Rightarrow> (False, st)
      | Some ts' \<Rightarrow> (True, st\<lparr>store := ts'\<rparr>))"

subsection \<open>Field normalizer and full replacement: \<open>TaskManager.update_tasks_from_llm\<close>\<close>

definition Priority_values :: "(string \<times> Priority) list" where
  "Priority_values = [(''low'', LOW), (''medium'', MEDIUM), (''high'', HIGH), (''urgent'', URGENT)]"

definition TaskStatus_values :: "(string \<times> TaskStatus) list" where
  "TaskStatus_values = [(''todo'', TODO), (''in_progress'', IN_PROGRESS), (''done'', DONE)]"

definition priority_map :: "(string \<times> Priority) list" where
  "priority_map =
     [(''critical'', URGENT), (''urgent'', URGENT), (''high'', HIGH),
      (''medium'', MEDIUM), (''normal'', MEDIUM), (''low'', LOW)]"

definition status_map :: "(string \<times> TaskStatus) list" where
  "status_map =
     [(''to do'', TODO), (''todo'', TODO), (''in progress'', IN_PROGRESS),
      (''in-progress'', IN_PROGRESS), (''done'', DONE), (''completed'', DONE),
      (''finished'', DONE)]"

text \<open>
  \<open>v in [m.value for m in E]\<close>: only a str equals one of the values; the validation
  then turns that value into the member.
\<close>

definition canonical :: "(string \<times> 'a) list \<Rightarrow> json \<Rightarrow> 'a option" where
  "canonical values v = (case v of JStr s \<Rightarrow> map_of values s | _ \<Rightarrow> None)"

text \<open>
  \<open>table.get(str(v).lower(), dflt)\<close>: for a str, \<open>str(v)\<close> is \<open>v\<close>; for any other
  decoded value \<open>str(v)\<close> is the rendering of \<open>None\<close>, a bool, a number, a list or a
  dict, which is no key of either table.
\<close>

definition table_get :: "(string \<times> 'a) list \<Rightarrow> json \<Rightarrow> 'a \<Rightarrow> 'a" where
  "table_get table v dflt =
     (case v of
        JStr s \<Rightarrow> (case map_of table (lower s) of None \<Rightarrow> dflt | Some x \<Rightarrow> x)
      | _ \<Rightarrow> dflt)"

definition normalize_priority :: "json \<Rightarrow> Priority" where
  "normalize_priority v =
     (case canonical Priority_values v of
        Some p \<Rightarrow> p
      | None \<Rightarrow> table_get priority_map v MEDIUM)"

definition normalize_status :: "json \<Rightarrow> TaskStatus" where
  "normalize_status v =
     (case canonical TaskStatus_values v of
        Some s \<Rightarrow> s
      | None \<Rightarrow> table_get status_map v TODO)"

text \<open>Validation of one field value against \<open>str\<close>, \<open>Optional[str]\<close>, \<open>Optional[int]\<close>, \<open>List[str]\<close>.\<close>

definition required_str :: "library \<Rightarrow> json \<Rightarrow> string option" where
  "required_str lib v =
     (case v of JStr s \<Rightarrow> Some s | JNull \<Rightarrow> None | _ \<Rightarrow> str_validator lib v)"

definition optional_str :: "library \<Rightarrow> json \<Rightarrow> string option option" where
  "optional_str lib v =
     (case v of JNull \<Rightarrow> Some None | JStr s \<Rightarrow> Some (Some s)
      | _ \<Rightarrow> map_option Some (str_validator lib v))"

definition optional_int :: "library \<Rightarrow> json \<Rightarrow> int option option" where
  "optional_int lib v =
     (case v of JNull \<Rightarrow> Some None | JInt n \<Rightarrow> Some (Some n)
      | _ \<Rightarrow> map_option Some (int_validator lib v))"

definition str_list :: "library \<Rightarrow> json \<Rightarrow> string list option" where
  "str_list lib v =
     (case v of JArr xs \<Rightarrow> those (map (required_str lib) xs) | _ \<Rightarrow> None)"

text \<open>
  The body of the \<open>try\<close> for a dictionary \<open>d\<close>: the clean-up of \<open>tags\<close>, \<open>priority\<close>
  and \<open>status\<close>, then \<open>Task(**d)\<close>, where a missing \<open>created_at\<close> becomes the reading
  \<open>now\<close> of the clock, a key \<open>self\<close> collides with the parameter of \<open>__init__\<close>, and
  keys that are no field are ignored. \<open>None\<close>: an exception was raised.
\<close>

definition convert_dict :: "library \<Rightarrow> string \<Rightarrow> (string \<times> json) list \<Rightarrow> Task option" where
  "convert_dict lib now d =
     (if ''self'' \<in> set (map fst d) then None
      else do {
        i \<leftarrow> (case map_of d ''id'' of None \<Rightarrow> Some None | Some v \<Rightarrow> optional_int lib v);
        t \<leftarrow> (case map_of d ''title'' of None \<Rightarrow> None | Some v \<Rightarrow> required_str lib v);
        de \<leftarrow> (case map_of d ''description'' of None \<Rightarrow> Some None | Some v \<Rightarrow> optional_str lib v);
        du \<leftarrow> (case map_of d ''due_date'' of None \<Rightarrow> Some None | Some v \<Rightarrow> optional_str lib v);
        tg \<leftarrow> (case map_of d ''tags'' of
                 None \<Rightarrow> Some []
               | Some (JStr s) \<Rightarrow> Some (map strip (split_comma s))
               | Some v \<Rightarrow> str_list lib v);
        c \<leftarrow> (case map_of d ''created_at'' of
                None \<Rightarrow> Some (Some now)
              | Some v \<Rightarrow> optional_str lib v);
        Some \<lparr>task_id = i, title = t, description = de,
              priority = (case map_of d ''priority'' of
                            None \<Rightarrow> MEDIUM
                          | Some v \<Rightarrow> normalize_priority v),
              due_date = du,
              status = (case map_of d ''status'' of
                          None \<Rightarrow> TODO
                        | Some v \<Rightarrow> normalize_status v),
              tags = tg, created_at = c\<rparr>
      })"

text \<open>
  One round of the first loop. Only a dict has \<open>get\<close>: a \<open>Task\<close> object and every
  other value raise \<open>AttributeError\<close>, which the \<open>except\<close> turns into a skip.
\<close>

fun convert :: "library \<Rightarrow> string \<Rightarrow> element \<Rightarrow> Task option" where
  "convert lib now (Value (JObj d)) = convert_dict lib now d"
| "convert lib now (Value _) = None"
| "convert lib now (TaskObject _) = None"

text \<open>\<open>clock i\<close> is the reading of the clock while element \<open>i\<close> is converted.\<close>

fun convert_all :: "library \<Rightarrow> (nat \<Rightarrow> string) \<Rightarrow> nat \<Rightarrow> element list \<Rightarrow> Task list" where
  "convert_all lib clock i [] = []"
| "convert_all lib clock i (e # es) =
     (case convert lib (clock i) e of
        None \<Rightarrow> convert_all lib clock (Suc i) es
      | Some t \<Rightarrow> t # convert_all lib clock (Suc i) es)"

text \<open>
  \<open>for task_dict in llm_tasks\<close>: a list gives its elements, a dict its keys, a str its
  characters; \<open>None\<close>, a bool and a number raise \<open>TypeError\<close>.
\<close>

fun py_iter :: "payload \<Rightarrow> exn + element list" where
  "py_iter (Objects ts) = Inr (map TaskObject ts)"
| "py_iter (Decoded (JArr xs)) = Inr (map Value xs)"
| "py_iter (Decoded (JObj d)) = Inr (map (\<lambda>kv. Value (JStr (fst kv))) d)"
| "py_iter (Decoded (JStr s)) = Inr (map (\<lambda>c. Value (JStr [c])) s)"
| "py_iter (Decoded v) = Inl (TypeError (quote (type_name v) @ '' object is not iterable''))"

text \<open>The second loop: every task without an id takes the counter's value.\<close>

fun assign_ids :: "TaskManager \<Rightarrow> Task list \<Rightarrow> Task list \<times> TaskManager" where
  "assign_ids st [] = ([], st)"
| "assign_ids st (t # ts) =
     (let (t', st') = assign_task_id st t;
          (ts', st'') = assign_ids st' ts
      in (t' # ts', st''))"

definition update_tasks_from_llm ::
  "library \<Rightarrow> (nat \<Rightarrow> string) \<Rightarrow> TaskManager \<Rightarrow> payload \<Rightarrow> exn + TaskManager" where
  "update_tasks_from_llm lib clock st llm_tasks =
     (case py_iter llm_tasks of
        Inl e \<Rightarrow> Inl e
      | Inr elements \<Rightarrow>
          (let new_tasks = convert_all lib clock 0 elements;
               (new_tasks', st') = assign_ids st new_tasks
           in Inr (st'\<lparr>store := new_tasks'\<rparr>)))"

subsection \<open>Command orchestrator: \<open>TaskManager.process_command\<close>\<close>

text \<open>
  The body of the \<open>try\<close> after the call of the LLM interpreter, and the \<open>except\<close>:
  \<open>now\<close> is the clock read by the fallback interpreter, which works on the store's own
  list object.
\<close>

definition process_result ::
  "library \<Rightarrow> (nat \<Rightarrow> string) \<Rightarrow> string \<Rightarrow> TaskManager \<Rightarrow> string \<Rightarrow> result
     \<Rightarrow> response \<times> TaskManager" where
  "process_result lib clock now st0 command result0 =
     (let (result, st) =
            (if \<not> success result0
             then (let (r, ts) = fallback_process command now (store st0)
                   in (r, st0\<lparr>store := ts\<rparr>))
             else (result0, st0))
      in if success result then
           (case update_tasks_from_llm lib clock st (tasks result) of
              Inl e \<Rightarrow>
                (\<lparr>r_success = False,
                  r_message = JStr (''Error processing command: '' @ str_exn e),
                  r_tasks = store st\<rparr>, st)
            | Inr st' \<Rightarrow>
                (\<lparr>r_success = success result, r_message = message result,
                  r_tasks = store st'\<rparr>, st'))
         else (\<lparr>r_success = success result, r_message = message result,
                 r_tasks = store st\<rparr>, st))"

definition process_command ::
  "library \<Rightarrow> (nat \<Rightarrow> string) \<Rightarrow> string \<Rightarrow> TaskManager \<Rightarrow> string \<Rightarrow> llm_reply
     \<Rightarrow> response \<times> TaskManager" where
  "process_command lib clock now st command reply =
     process_result lib clock now st command
       (llm_process_command lib command (store st) reply)"

subsection \<open>Concrete inputs\<close>

text \<open>
  A library whose \<open>json.loads\<close> decodes the few texts used below and rejects every
  other text, and whose validators reject every value of another type.
\<close>

definition demo_library :: library where
  "demo_library =
     \<lparr>json_loads = (\<lambda>s. if s = ''{\"tasks\": 5}'' then Some (JObj [(''tasks'', JInt 5)])
                         else None),
      int_validator = (\<lambda>_. None),
      str_validator = (\<lambda>_. None)\<rparr>"

definition demo_manager :: TaskManager where
  "demo_manager =
     \<lparr>store = [new_task 1 ''complete project proposal'' ''T0'',
                new_task 2 ''buy groceries'' ''T0''],
      next_id = 3\<rparr>"

definition demo_task :: "int \<Rightarrow> string \<Rightarrow> Priority \<Rightarrow> Task" where
  "demo_task i t p = (new_task i t ''T0'')\<lparr>priority := p\<rparr>"

definition demo_clock :: "nat \<Rightarrow> string" where
  "demo_clock i = ''T9''"

definition echo_without_created_at :: payload where
  "echo_without_created_at =
     Decoded (JArr [JObj [(''id'', JInt 1), (''title'', JStr ''complete project proposal'')]])"

definition echo_and_new :: payload where
  "echo_and_new =
     Decoded (JArr [JObj [(''id'', JInt 1), (''title'', JStr ''complete project proposal''),
                          (''created_at'', JStr ''T0'')],
                    JObj [(''title'', JStr ''call mom'')]])"

subsection \<open>Sequences of calls on the store\<close>

text \<open>
  A call of \<open>add_task\<close>, of \<open>delete_task\<close> or of \<open>update_tasks_from_llm\<close> (the full
  replacement), and the state after a sequence of such calls; a replacement that
  raises leaves the state as it was.
\<close>

datatype store_op = Add Task | Delete int | Replace_all payload

fun apply_op :: "library \<Rightarrow> (nat \<Rightarrow> string) \<Rightarrow> TaskManager \<Rightarrow> store_op \<Rightarrow> TaskManager" where
  "apply_op lib clock st (Add t) = snd (add_task st t)"
| "apply_op lib clock st (Delete i) = snd (delete_task st i)"
| "apply_op lib clock st (Replace_all p) =
     (case update_tasks_from_llm lib clock st p of Inl _ \<Rightarrow> st | Inr st' \<Rightarrow> st')"

definition run :: "library \<Rightarrow> (nat \<Rightarrow> string) \<Rightarrow> TaskManager \<Rightarrow> store_op list \<Rightarrow> TaskManager" where
  "run lib clock st ops = foldl (apply_op lib clock) st ops"

text \<open>The call brings no identifier of its own: every task it stores arrives without one.\<close>

fun without_id :: "library \<Rightarrow> (nat \<Rightarrow> string) \<Rightarrow> store_op \<Rightarrow> bool" where
  "without_id lib clock (Add t) = (task_id t = None)"
| "without_id lib clock (Delete i) = True"
| "without_id lib clock (Replace_all p) =
     (case py_iter p of
        Inl _ \<Rightarrow> True
      | Inr es \<Rightarrow> list_all (\<lambda>t. task_id t = None) (convert_all lib clock 0 es))"

text \<open>
  Every task has an identifier below \<open>n\<close>, and the identifiers strictly increase along
  the list.
\<close>

fun increasing_below :: "int \<Rightarrow> Task list \<Rightarrow> bool" where
  "increasing_below n [] = True"
| "increasing_below n (t # ts) =
     (case task_id t of
        None \<Rightarrow> False
      | Some i \<Rightarrow> i < n \<and> list_all (\<lambda>u. case task_id u of None \<Rightarrow> False | Some j \<Rightarrow> i < j) ts
                  \<and> increasing_below n ts)"

definition ids_increasing :: "TaskManager \<Rightarrow> bool" where
  "ids_increasing st = increasing_below (next_id st) (store st)"

definition unsaved_task :: "string \<Rightarrow> Task" where
  "unsaved_task t = (new_task 0 t ''T0'')\<lparr>task_id := None\<rparr>"

definition echo_task_1 :: payload where
  "echo_task_1 = Decoded (JArr [JObj [(''id'', JInt 1), (''title'', JStr ''call mom'')]])"

definition demo_ops :: "store_op list" where
  "demo_ops = [Add (unsaved_task ''water plants''), Delete 1, Replace_all (Decoded (JArr []))]"

subsection \<open>The specification's reading of the second extraction pattern\<close>

text \<open>
  Stated from the specification's words, "the first top-level \<open>{...}\<close> span in the
  text", to be compared with \<open>brace_span\<close>: from the first opening brace to the closing
  brace that matches it.
\<close>

fun matching_span :: "nat \<Rightarrow> string \<Rightarrow> string option" where
  "matching_span depth [] = None"
| "matching_span depth (c # cs) =
     (if c = CHR ''{'' then map_option ((#) c) (matching_span (Suc depth) cs)
      else if c = CHR ''}'' then
        (if depth \<le> 1 then Some [c] else map_option ((#) c) (matching_span (depth - 1) cs))
      else map_option ((#) c) (matching_span depth cs))"

definition spec_first_top_level_span :: "string \<Rightarrow> string option" where
  "spec_first_top_level_span text = matching_span 0 (dropWhile (\<lambda>c. c \<noteq> CHR ''{'') text)"

definition two_objects :: string where
  "two_objects = ''{\"action\": \"LIST\"} or {\"action\": \"ADD\"}''"

definition fenced_answer :: string where
  "fenced_answer = ''Sure: ```json  {\"tasks\": 5}  ``` done''"

definition bare_answer :: string where
  "bare_answer = ''Here you go: {\"tasks\": 5} bye''"

definition prose_answer :: string where
  "prose_answer = ''I cannot help with that''"

section \<open>Properties\<close>

subsection \<open>The fallback interpreter and the replacement of the list\<close>

lemma fallback_success: "success (fst (fallback_process c n ts))"
  by (simp add: fallback_process_def showing_all_def Let_def)

lemma fallback_objects: "\<exists>xs. tasks (fst (fallback_process c n ts)) = Objects xs"
  by (simp add: fallback_process_def showing_all_def Let_def)

lemma convert_all_objects: "convert_all lib clock i (map TaskObject xs) = []"
  by (induction xs arbitrary: i) simp_all

lemma update_objects:
  "update_tasks_from_llm lib clock st (Objects xs) = Inr (st\<lparr>store := []\<rparr>)"
  by (simp add: update_tasks_from_llm_def convert_all_objects)

subsection \<open>Failure of the orchestration\<close>

text \<open>
  C2. Whenever \<open>process_command\<close> answers with \<open>success = False\<close>, the tasks it returns
  are the store's content before the command and the state of the manager (list and
  counter) is the one before the command.
\<close>

theorem process_command_failure_unchanged:
  assumes "process_command lib clock now st command reply = (resp, st')"
    and "\<not> r_success resp"
  shows "r_tasks resp = store st \<and> st' = st"
proof (cases "success (llm_process_command lib command (store st) reply)")
  case True
  with assms show ?thesis
    by (auto simp: process_command_def process_result_def split: sum.splits)
next
  case False
  obtain r ts where fb: "fallback_process command now (store st) = (r, ts)"
    by (cases "fallback_process command now (store st)")
  from fallback_success[of command now "store st"] fb have s: "success r" by simp
  from fallback_objects[of command now "store st"] fb obtain xs where o: "tasks r = Objects xs"
    by auto
  from assms False fb s o show ?thesis
    by (auto simp: process_command_def process_result_def update_objects)
qed

theorem process_command_failure_unchanged_witness:
  "\<not> r_success (fst (process_command demo_library demo_clock ''T1'' demo_manager ''list''
                        (ResponseText ''Here you go: {\"tasks\": 5}'')))
   \<and> r_tasks (fst (process_command demo_library demo_clock ''T1'' demo_manager ''list''
                        (ResponseText ''Here you go: {\"tasks\": 5}''))) = store demo_manager
   \<and> snd (process_command demo_library demo_clock ''T1'' demo_manager ''list''
                        (ResponseText ''Here you go: {\"tasks\": 5}'')) = demo_manager"
proof -
  let ?out = "process_command demo_library demo_clock ''T1'' demo_manager ''list''
                (ResponseText ''Here you go: {\"tasks\": 5}'')"
  have f: "\<not> r_success (fst ?out)" by code_simp
  have e: "?out = (fst ?out, snd ?out)" by simp
  from process_command_failure_unchanged[OF e f] f show ?thesis by simp
qed

subsection \<open>The action tag\<close>

text \<open>
  C10. Two interpreter results that differ only in the field \<open>action\<close> lead to the same
  answer and the same committed state: the orchestrator never reads the tag.
\<close>

theorem process_result_ignores_action:
  "process_result lib clock now st command (result\<lparr>action := a\<rparr>)
     = process_result lib clock now st command result"
  by (simp add: process_result_def split: sum.split prod.split)

subsection \<open>Update of one task\<close>

lemma find_update_first_None:
  "find (\<lambda>t. task_id t = Some i) ts = None \<Longrightarrow> update_first i u ts = None"
  by (induction ts) (auto split: if_splits)

lemma find_update_first_Some:
  "find (\<lambda>t. task_id t = Some i) ts = Some old \<Longrightarrow>
   \<exists>r ts'. update_first i u ts = Some (r, ts') \<and> task_id r = Some i
      \<and> created_at r = (if \<not> truthy (created_at u) then created_at old else created_at u)
      \<and> find (\<lambda>t. task_id t = Some i) ts' = Some r \<and> length ts' = length ts"
  by (induction ts) (auto simp: Let_def split: if_splits)

text \<open>
  C5. If the store holds a task with identifier \<open>i\<close> (\<open>old\<close> is the first one) and the
  replacement \<open>u\<close> has no \<open>created_at\<close>, \<open>update_task\<close> returns a task with identifier \<open>i\<close>
  and the \<open>created_at\<close> of \<open>old\<close>, which is then the task stored under \<open>i\<close>. If no task
  has identifier \<open>i\<close>, it returns \<open>None\<close> and the state is unchanged.
\<close>

theorem update_task_keeps_id_and_created_at:
  "(get_task st i = Some old \<and> \<not> truthy (created_at u) \<longrightarrow>
      (\<exists>r st'. update_task st i u = (Some r, st') \<and> task_id r = Some i
          \<and> created_at r = created_at old \<and> get_task st' i = Some r
          \<and> next_id st' = next_id st))
   \<and> (get_task st i = None \<longrightarrow> update_task st i u = (None, st))"
proof (intro conjI impI)
  assume a: "get_task st i = Some old \<and> \<not> truthy (created_at u)"
  then have "find (\<lambda>t. task_id t = Some i) (store st) = Some old"
    by (simp add: get_task_def)
  from find_update_first_Some[OF this, of u] a
  show "\<exists>r st'. update_task st i u = (Some r, st') \<and> task_id r = Some i
          \<and> created_at r = created_at old \<and> get_task st' i = Some r
          \<and> next_id st' = next_id st"
    by (auto simp: update_task_def get_task_def)
next
  assume "get_task st i = None"
  then show "update_task st i u = (None, st)"
    by (simp add: get_task_def update_task_def find_update_first_None)
qed

theorem update_task_keeps_id_and_created_at_witness:
  "get_task demo_manager 2 = Some (new_task 2 ''buy groceries'' ''T0'')
   \<and> \<not> truthy (created_at ((new_task 9 ''buy oat milk'' ''T5'')\<lparr>created_at := None\<rparr>))
   \<and> (\<exists>r st'. update_task demo_manager 2 ((new_task 9 ''buy oat milk'' ''T5'')\<lparr>created_at := None\<rparr>)
                  = (Some r, st')
          \<and> task_id r = Some 2 \<and> created_at r = Some ''T0'')
   \<and> get_task demo_manager 7 = None
   \<and> update_task demo_manager 7 ((new_task 9 ''buy oat milk'' ''T5'')\<lparr>created_at := None\<rparr>)
        = (None, demo_manager)"
proof -
  let ?u = "(new_task 9 ''buy oat milk'' ''T5'')\<lparr>created_at := None\<rparr>"
  have g: "get_task demo_manager 2 = Some (new_task 2 ''buy groceries'' ''T0'')" by code_simp
  have t: "\<not> truthy (created_at ?u)" by code_simp
  have n: "get_task demo_manager 7 = None" by code_simp
  have c: "created_at (new_task 2 ''buy groceries'' ''T0'') = Some ''T0''"
    by (simp add: new_task_def)
  from update_task_keeps_id_and_created_at[of demo_manager 2 "new_task 2 ''buy groceries'' ''T0''" ?u]
       update_task_keeps_id_and_created_at[of demo_manager 7 "new_task 2 ''buy groceries'' ''T0''" ?u]
       g t n c
  show ?thesis by auto
qed

subsection \<open>The fallback interpreter under the orchestrator\<close>

lemma llm_failure_empties_store:
  assumes "\<not> success (llm_process_command lib command (store st) reply)"
  shows "process_command lib clock now st command reply
           = (\<lparr>r_success = True,
               r_message = message (fst (fallback_process command now (store st))),
               r_tasks = []\<rparr>, st\<lparr>store := []\<rparr>)"
proof -
  obtain r ts where fb: "fallback_process command now (store st) = (r, ts)"
    by (cases "fallback_process command now (store st)")
  from fallback_success[of command now "store st"] fb have s: "success r" by simp
  from fallback_objects[of command now "store st"] fb obtain xs where o: "tasks r = Objects xs"
    by auto
  from assms fb s o show ?thesis
    by (simp add: process_command_def process_result_def update_objects)
qed

text \<open>
  C1. With two tasks in the store, the command \<open>list\<close> and an LLM answer of status 500,
  the fallback interpreter returns the two tasks, and \<open>process_command\<close> answers with
  the fallback's message but commits and returns the empty list: the replacement
  skips every \<open>Task\<close> object of the fallback's result.
\<close>

theorem fallback_result_is_dropped:
  "fst (fallback_process ''list'' ''T1'' (store demo_manager))
     = \<lparr>success = True, message = JStr ''Here are your tasks'',
        tasks = Objects (store demo_manager), action = Some (JStr ''LIST'')\<rparr>
   \<and> process_command demo_library demo_clock ''T1'' demo_manager ''list''
        (BadStatus ''model not found'')
     = (\<lparr>r_success = True, r_message = JStr ''Here are your tasks'', r_tasks = []\<rparr>,
        \<lparr>store = [], next_id = 3\<rparr>)"
  by code_simp

subsection \<open>Text lemmas\<close>

lemma in_set_dropWhile: "x \<in> set xs \<Longrightarrow> \<not> P x \<Longrightarrow> x \<in> set (dropWhile P xs)"
  by (induction xs) auto

lemma strip_eq_Nil_iff: "strip s = [] \<longleftrightarrow> (\<forall>c\<in>set s. is_space c)"
proof
  assume "strip s = []"
  then have a: "\<forall>c\<in>set (dropWhile is_space s). is_space c"
    by (simp add: strip_def rstrip_def lstrip_def dropWhile_eq_Nil_conv)
  show "\<forall>c\<in>set s. is_space c"
  proof (rule ccontr)
    assume "\<not> (\<forall>c\<in>set s. is_space c)"
    then obtain c where "c \<in> set s" "\<not> is_space c" by auto
    then have "c \<in> set (dropWhile is_space s)" by (rule in_set_dropWhile)
    with a \<open>\<not> is_space c\<close> show False by auto
  qed
next
  assume "\<forall>c\<in>set s. is_space c"
  then show "strip s = []"
    by (auto simp: strip_def rstrip_def lstrip_def dropWhile_eq_Nil_conv dest: set_dropWhileD)
qed

lemma strip_last: "strip s \<noteq> [] \<Longrightarrow> \<not> is_space (last (strip s))"
proof -
  assume a: "strip s \<noteq> []"
  let ?r = "dropWhile is_space (rev (lstrip s))"
  from a have ne: "?r \<noteq> []" by (simp add: strip_def rstrip_def)
  then have "\<not> is_space (hd ?r)" by (rule hd_dropWhile)
  moreover have "last (strip s) = hd ?r" using ne by (simp add: strip_def rstrip_def last_rev)
  ultimately show ?thesis by simp
qed

lemma contains_nonempty: "contains p s \<Longrightarrow> p \<noteq> [] \<Longrightarrow> s \<noteq> []"
  by (cases s) auto

lemma strip_verb_keeps_text:
  assumes "s \<noteq> []" and "\<not> is_space (last s)"
  shows "\<exists>c\<in>set (strip_verb s). \<not> is_space c"
proof -
  have k: "\<exists>c\<in>set (dropWhile is_space (drop n s)). \<not> is_space c" if "drop n s \<noteq> []" for n
  proof -
    from that have "n < length s" by simp
    then have "last (drop n s) = last s" by (rule last_drop)
    with that have "last s \<in> set (drop n s)" by (metis last_in_set)
    with assms(2) have "last s \<in> set (dropWhile is_space (drop n s))"
      by (simp add: in_set_dropWhile)
    with assms(2) show ?thesis by blast
  qed
  have sf: "drop n s \<noteq> []" if "space_first (drop n s)" for n
    using that by (auto simp: space_first_def split: list.splits)
  from assms have "\<exists>c\<in>set s. \<not> is_space c" using last_in_set by blast
  then show ?thesis using k sf by (auto simp: strip_verb_def)
qed

lemma fallback_title_nonempty:
  assumes "contains ''add'' (strip (lower c)) \<or> contains ''create'' (strip (lower c))"
  shows "strip (strip_verb (strip (lower c))) \<noteq> []"
proof -
  from assms have ne: "strip (lower c) \<noteq> []" by (auto dest: contains_nonempty)
  then have "\<not> is_space (last (strip (lower c)))" by (rule strip_last)
  with ne have "\<exists>x\<in>set (strip_verb (strip (lower c))). \<not> is_space x"
    by (rule strip_verb_keeps_text)
  then show ?thesis by (simp add: strip_eq_Nil_iff)
qed

subsection \<open>The ADD branch of the fallback interpreter\<close>

text \<open>
  C7, as claimed, fails: called on an empty list with the command \<open>add buy milk\<close>, the
  fallback interpreter leaves one task in the caller's list.
\<close>

theorem fallback_add_mutates_counterexample:
  "snd (fallback_process ''add buy milk'' ''T1'' []) = [new_task 1 ''buy milk'' ''T1'']
   \<and> snd (fallback_process ''add buy milk'' ''T1'' []) \<noteq> []"
  by code_simp

text \<open>
  C7, amended. When the lowered, stripped command contains \<open>add\<close> or \<open>create\<close>, the text
  left after the leading verb is stripped is not empty and is the title of a new task
  with identifier \<open>len(tasks) + 1\<close>, priority MEDIUM, status TODO and the clock's reading
  as \<open>created_at\<close>; the task is appended to the caller's own list, which is also the list
  the result carries. In every other branch the caller's list is left as it was.
\<close>

theorem fallback_add_appends_in_place:
  "(contains ''add'' (strip (lower c)) \<or> contains ''create'' (strip (lower c)) \<longrightarrow>
      (\<exists>t new. t = strip (strip_verb (strip (lower c))) \<and> t \<noteq> []
         \<and> new = \<lparr>task_id = Some (int (length ts) + 1), title = t, description = None,
                   priority = MEDIUM, due_date = None, status = TODO, tags = [],
                   created_at = Some now\<rparr>
         \<and> fallback_process c now ts
             = (\<lparr>success = True, message = JStr (''Added task: '' @ t),
                  tasks = Objects (ts @ [new]), action = Some (JStr ''ADD'')\<rparr>,
                ts @ [new])))
   \<and> (\<not> (contains ''add'' (strip (lower c)) \<or> contains ''create'' (strip (lower c))) \<longrightarrow>
        snd (fallback_process c now ts) = ts)"
proof (intro conjI impI)
  assume a: "contains ''add'' (strip (lower c)) \<or> contains ''create'' (strip (lower c))"
  from fallback_title_nonempty[OF a] a
  show "\<exists>t new. t = strip (strip_verb (strip (lower c))) \<and> t \<noteq> []
         \<and> new = \<lparr>task_id = Some (int (length ts) + 1), title = t, description = None,
                   priority = MEDIUM, due_date = None, status = TODO, tags = [],
                   created_at = Some now\<rparr>
         \<and> fallback_process c now ts
             = (\<lparr>success = True, message = JStr (''Added task: '' @ t),
                  tasks = Objects (ts @ [new]), action = Some (JStr ''ADD'')\<rparr>,
                ts @ [new])"
    by (simp add: fallback_process_def Let_def new_task_def)
next
  assume "\<not> (contains ''add'' (strip (lower c)) \<or> contains ''create'' (strip (lower c)))"
  then show "snd (fallback_process c now ts) = ts"
    by (simp add: fallback_process_def Let_def)
qed

theorem fallback_add_appends_in_place_witness:
  "(contains ''add'' (strip (lower ''  Add buy milk '')) \<or> contains ''create'' (strip (lower ''  Add buy milk '')))
   \<and> fallback_process ''  Add buy milk '' ''T1'' (store demo_manager)
       = (\<lparr>success = True, message = JStr ''Added task: buy milk'',
            tasks = Objects (store demo_manager @ [new_task 3 ''buy milk'' ''T1'']),
            action = Some (JStr ''ADD'')\<rparr>,
          store demo_manager @ [new_task 3 ''buy milk'' ''T1''])
   \<and> \<not> (contains ''add'' (strip (lower ''show it'')) \<or> contains ''create'' (strip (lower ''show it'')))
   \<and> snd (fallback_process ''show it'' ''T1'' (store demo_manager)) = store demo_manager"
proof -
  have a: "contains ''add'' (strip (lower ''  Add buy milk ''))
           \<or> contains ''create'' (strip (lower ''  Add buy milk ''))" by code_simp
  have b: "\<not> (contains ''add'' (strip (lower ''show it''))
              \<or> contains ''create'' (strip (lower ''show it'')))" by code_simp
  have t: "strip (strip_verb (strip (lower ''  Add buy milk ''))) = ''buy milk''" by code_simp
  have l: "int (length (store demo_manager)) + 1 = 3" by code_simp
  from fallback_add_appends_in_place[of "''  Add buy milk ''" "store demo_manager" "''T1''"]
       fallback_add_appends_in_place[of "''show it''" "store demo_manager" "''T1''"]
       a b t l
  show ?thesis by (auto simp: new_task_def)
qed

subsection \<open>The PRIORITIZE branch of the fallback interpreter\<close>

lemma sort_rank_priority:
  "sort_rank t = (case priority t of URGENT \<Rightarrow> 0 | HIGH \<Rightarrow> 1 | MEDIUM \<Rightarrow> 2 | LOW \<Rightarrow> 3)"
  by (cases "priority t") (simp_all add: sort_rank_def priority_order_def)

lemma priority_eq_rank:
  "priority t = p \<longleftrightarrow> sort_rank t = (case p of URGENT \<Rightarrow> 0 | HIGH \<Rightarrow> 1 | MEDIUM \<Rightarrow> 2 | LOW \<Rightarrow> 3)"
  by (cases "priority t"; cases p) (simp_all add: sort_rank_priority)

lemma sort_key_rank_stable:
  "filter (\<lambda>t. priority t = p) (sort_key sort_rank ts) = filter (\<lambda>t. priority t = p) ts"
  by (simp only: priority_eq_rank sort_key_stable)

text \<open>
  C8, as claimed, fails: the command \<open>sort my list\<close> contains \<open>sort\<close>, but it also
  contains \<open>list\<close>, whose branch comes first and returns the tasks as they are.
\<close>

theorem fallback_sort_counterexample:
  "contains ''sort'' (strip (lower ''sort my list''))
   \<and> tasks (fst (fallback_process ''sort my list'' ''T1''
                    [demo_task 1 ''a'' LOW, demo_task 2 ''b'' URGENT]))
       = Objects [demo_task 1 ''a'' LOW, demo_task 2 ''b'' URGENT]
   \<and> \<not> sorted (map sort_rank [demo_task 1 ''a'' LOW, demo_task 2 ''b'' URGENT])"
  by code_simp

text \<open>
  C8, amended. When the lowered, stripped command contains \<open>prioritize\<close> or \<open>sort\<close> and
  none of \<open>add\<close>, \<open>create\<close> and \<open>list\<close>, the fallback interpreter returns a permutation
  of the list, sorted by the rank URGENT 0, HIGH 1, MEDIUM 2, LOW 3, in which the tasks
  of each priority keep their order; the caller's list is unchanged.
\<close>

theorem fallback_prioritize_sorts:
  assumes "\<not> contains ''add'' (strip (lower c))"
    and "\<not> contains ''create'' (strip (lower c))"
    and "\<not> contains ''list'' (strip (lower c))"
    and "contains ''prioritize'' (strip (lower c)) \<or> contains ''sort'' (strip (lower c))"
  shows "\<exists>out. fallback_process c now ts
                  = (\<lparr>success = True, message = JStr ''Tasks sorted by priority'',
                       tasks = Objects out, action = Some (JStr ''PRIORITIZE'')\<rparr>, ts)
           \<and> mset out = mset ts
           \<and> sorted (map sort_rank out)
           \<and> (\<forall>p. filter (\<lambda>t. priority t = p) out = filter (\<lambda>t. priority t = p) ts)
           \<and> (\<forall>t. sort_rank t
                    = (case priority t of URGENT \<Rightarrow> 0 | HIGH \<Rightarrow> 1 | MEDIUM \<Rightarrow> 2 | LOW \<Rightarrow> 3))"
proof (intro exI conjI)
  from assms show "fallback_process c now ts
                  = (\<lparr>success = True, message = JStr ''Tasks sorted by priority'',
                       tasks = Objects (sort_key sort_rank ts), action = Some (JStr ''PRIORITIZE'')\<rparr>, ts)"
    by (simp add: fallback_process_def Let_def)
  show "mset (sort_key sort_rank ts) = mset ts" by simp
  show "sorted (map sort_rank (sort_key sort_rank ts))" by (rule sorted_sort_key)
  show "\<forall>p. filter (\<lambda>t. priority t = p) (sort_key sort_rank ts) = filter (\<lambda>t. priority t = p) ts"
    by (simp add: sort_key_rank_stable)
  show "\<forall>t. sort_rank t
                    = (case priority t of URGENT \<Rightarrow> 0 | HIGH \<Rightarrow> 1 | MEDIUM \<Rightarrow> 2 | LOW \<Rightarrow> 3)"
    by (simp add: sort_rank_priority)
qed

theorem fallback_prioritize_sorts_witness:
  "\<not> contains ''add'' (strip (lower ''prioritize my tasks''))
   \<and> \<not> contains ''create'' (strip (lower ''prioritize my tasks''))
   \<and> \<not> contains ''list'' (strip (lower ''prioritize my tasks''))
   \<and> contains ''prioritize'' (strip (lower ''prioritize my tasks''))
   \<and> (\<exists>out. fallback_process ''prioritize my tasks'' ''T1''
               [demo_task 1 ''a'' LOW, demo_task 2 ''b'' URGENT, demo_task 3 ''c'' MEDIUM]
             = (\<lparr>success = True, message = JStr ''Tasks sorted by priority'',
                  tasks = Objects out, action = Some (JStr ''PRIORITIZE'')\<rparr>,
                [demo_task 1 ''a'' LOW, demo_task 2 ''b'' URGENT, demo_task 3 ''c'' MEDIUM])
          \<and> out = [demo_task 2 ''b'' URGENT, demo_task 3 ''c'' MEDIUM, demo_task 1 ''a'' LOW]
          \<and> sorted (map sort_rank out))"
proof -
  let ?c = "''prioritize my tasks''"
  let ?ts = "[demo_task 1 ''a'' LOW, demo_task 2 ''b'' URGENT, demo_task 3 ''c'' MEDIUM]"
  have h1: "\<not> contains ''add'' (strip (lower ?c))" by code_simp
  have h2: "\<not> contains ''create'' (strip (lower ?c))" by code_simp
  have h3: "\<not> contains ''list'' (strip (lower ?c))" by code_simp
  have h4: "contains ''prioritize'' (strip (lower ?c)) \<or> contains ''sort'' (strip (lower ?c))"
    by code_simp
  have h5: "contains ''prioritize'' (strip (lower ?c))" by code_simp
  have e: "tasks (fst (fallback_process ?c ''T1'' ?ts))
             = Objects [demo_task 2 ''b'' URGENT, demo_task 3 ''c'' MEDIUM, demo_task 1 ''a'' LOW]"
    by code_simp
  from fallback_prioritize_sorts[OF h1 h2 h3 h4, of "''T1''" ?ts] obtain out where
    o: "fallback_process ?c ''T1'' ?ts
          = (\<lparr>success = True, message = JStr ''Tasks sorted by priority'',
               tasks = Objects out, action = Some (JStr ''PRIORITIZE'')\<rparr>, ?ts)"
    and s: "sorted (map sort_rank out)"
    by blast
  from o e have "out = [demo_task 2 ''b'' URGENT, demo_task 3 ''c'' MEDIUM, demo_task 1 ''a'' LOW]"
    by simp
  with o s h1 h2 h3 h5 show ?thesis by blast
qed

subsection \<open>Normalization of \<open>priority\<close> and \<open>status\<close>\<close>

lemma lower_canonical:
  "lower ''low'' = ''low''" "lower ''medium'' = ''medium''" "lower ''high'' = ''high''"
  "lower ''urgent'' = ''urgent''" "lower ''todo'' = ''todo''" "lower ''done'' = ''done''"
  "lower ''in_progress'' = ''in_progress''"
  by code_simp+

lemma normalize_priority_str:
  "normalize_priority (JStr s)
     = (case map_of priority_map (lower s) of None \<Rightarrow> MEDIUM | Some p \<Rightarrow> p)"
  by (auto simp: normalize_priority_def canonical_def table_get_def Priority_values_def
        priority_map_def lower_canonical split: option.splits)

lemma normalize_status_str:
  "normalize_status (JStr s)
     = (if s = ''in_progress'' then IN_PROGRESS
        else case map_of status_map (lower s) of None \<Rightarrow> TODO | Some p \<Rightarrow> p)"
  by (auto simp: normalize_status_def canonical_def table_get_def TaskStatus_values_def
        status_map_def lower_canonical split: option.splits)

lemma normalize_priority_other: "(\<forall>x. v \<noteq> JStr x) \<Longrightarrow> normalize_priority v = MEDIUM"
  by (cases v) (simp_all add: normalize_priority_def canonical_def table_get_def)

lemma normalize_status_other: "(\<forall>x. v \<noteq> JStr x) \<Longrightarrow> normalize_status v = TODO"
  by (cases v) (simp_all add: normalize_status_def canonical_def table_get_def)

lemma convert_dict_priority_status:
  "convert_dict lib now d = Some t \<Longrightarrow>
     priority t = (case map_of d ''priority'' of None \<Rightarrow> MEDIUM | Some v \<Rightarrow> normalize_priority v)
   \<and> status t = (case map_of d ''status'' of None \<Rightarrow> TODO | Some v \<Rightarrow> normalize_status v)"
  by (auto simp: convert_dict_def split: if_splits bind_splits)

text \<open>
  C9. For a str \<open>s\<close>, compared after lowering: \<open>critical\<close> and \<open>urgent\<close> give URGENT,
  \<open>high\<close> HIGH, \<open>medium\<close> and \<open>normal\<close> MEDIUM, \<open>low\<close> LOW, and every str that is no key
  of the table gives MEDIUM; \<open>to do\<close> and \<open>todo\<close> give TODO, \<open>in progress\<close> and
  \<open>in-progress\<close> IN_PROGRESS, \<open>done\<close>, \<open>completed\<close> and \<open>finished\<close> DONE, and every
  other str but the canonical \<open>in_progress\<close> gives TODO. A value that is no str gives
  the default. The canonical values \<open>low\<close>, \<open>medium\<close>, \<open>high\<close>, \<open>urgent\<close>, \<open>todo\<close>,
  \<open>in_progress\<close>, \<open>done\<close> give their own member. A converted dictionary carries the
  normalized value of its \<open>priority\<close> and \<open>status\<close>, or the field's default.
\<close>

theorem normalize_tables:
  "(lower s = ''critical'' \<or> lower s = ''urgent'' \<longrightarrow> normalize_priority (JStr s) = URGENT)
 \<and> (lower s = ''high'' \<longrightarrow> normalize_priority (JStr s) = HIGH)
 \<and> (lower s = ''medium'' \<or> lower s = ''normal'' \<longrightarrow> normalize_priority (JStr s) = MEDIUM)
 \<and> (lower s = ''low'' \<longrightarrow> normalize_priority (JStr s) = LOW)
 \<and> (lower s \<notin> set (map fst priority_map) \<longrightarrow> normalize_priority (JStr s) = MEDIUM)
 \<and> ((\<forall>x. v \<noteq> JStr x) \<longrightarrow> normalize_priority v = MEDIUM)
 \<and> (lower s = ''to do'' \<or> lower s = ''todo'' \<longrightarrow> normalize_status (JStr s) = TODO)
 \<and> (lower s = ''in progress'' \<or> lower s = ''in-progress''
       \<longrightarrow> normalize_status (JStr s) = IN_PROGRESS)
 \<and> (lower s = ''done'' \<or> lower s = ''completed'' \<or> lower s = ''finished''
       \<longrightarrow> normalize_status (JStr s) = DONE)
 \<and> (s \<noteq> ''in_progress'' \<and> lower s \<notin> set (map fst status_map)
       \<longrightarrow> normalize_status (JStr s) = TODO)
 \<and> ((\<forall>x. v \<noteq> JStr x) \<longrightarrow> normalize_status v = TODO)
 \<and> normalize_priority (JStr ''low'') = LOW \<and> normalize_priority (JStr ''medium'') = MEDIUM
 \<and> normalize_priority (JStr ''high'') = HIGH \<and> normalize_priority (JStr ''urgent'') = URGENT
 \<and> normalize_status (JStr ''todo'') = TODO \<and> normalize_status (JStr ''in_progress'') = IN_PROGRESS
 \<and> normalize_status (JStr ''done'') = DONE
 \<and> (convert_dict lib now d = Some t \<longrightarrow>
       priority t = (case map_of d ''priority'' of None \<Rightarrow> MEDIUM | Some v \<Rightarrow> normalize_priority v)
     \<and> status t = (case map_of d ''status'' of None \<Rightarrow> TODO | Some v \<Rightarrow> normalize_status v))"
  using normalize_priority_other[of v] normalize_status_other[of v]
        convert_dict_priority_status[of lib now d t]
  by (simp add: normalize_priority_str normalize_status_str priority_map_def status_map_def
        lower_canonical)

theorem normalize_tables_witness:
  "normalize_priority (JStr ''Critical'') = URGENT
   \<and> normalize_priority (JStr ''HIGH'') = HIGH
   \<and> normalize_priority (JStr ''Normal'') = MEDIUM
   \<and> normalize_priority (JStr ''Low'') = LOW
   \<and> normalize_priority (JStr ''unknown-value'') = MEDIUM
   \<and> normalize_priority (JInt 3) = MEDIUM
   \<and> normalize_status (JStr ''To Do'') = TODO
   \<and> normalize_status (JStr ''in-progress'') = IN_PROGRESS
   \<and> normalize_status (JStr ''Finished'') = DONE
   \<and> normalize_status (JStr ''blocked'') = TODO
   \<and> normalize_status JNull = TODO
   \<and> map_option priority (convert_dict demo_library ''T1''
         [(''title'', JStr ''call mom''), (''priority'', JStr ''critical''),
          (''status'', JStr ''completed'')]) = Some URGENT
   \<and> map_option status (convert_dict demo_library ''T1''
         [(''title'', JStr ''call mom''), (''priority'', JStr ''critical''),
          (''status'', JStr ''completed'')]) = Some DONE"
proof -
  let ?d = "[(''title'', JStr ''call mom''), (''priority'', JStr ''critical''),
             (''status'', JStr ''completed'')]"
  have l: "lower ''Critical'' = ''critical''" "lower ''HIGH'' = ''high''"
    "lower ''Normal'' = ''normal''" "lower ''Low'' = ''low''"
    "lower ''unknown-value'' = ''unknown-value''" "lower ''To Do'' = ''to do''"
    "lower ''in-progress'' = ''in-progress''" "lower ''Finished'' = ''finished''"
    "lower ''blocked'' = ''blocked''" "lower ''critical'' = ''critical''"
    "lower ''completed'' = ''completed''"
    by code_simp+
  obtain t where c: "convert_dict demo_library ''T1'' ?d = Some t"
    by (simp add: convert_dict_def required_str_def)
  from normalize_tables[of "''Critical''" "JInt 3" demo_library "''T1''" ?d t]
       normalize_tables[of "''HIGH''" JNull]
       normalize_tables[of "''Normal''"] normalize_tables[of "''Low''"]
       normalize_tables[of "''unknown-value''"] normalize_tables[of "''To Do''"]
       normalize_tables[of "''in-progress''"] normalize_tables[of "''Finished''"]
       normalize_tables[of "''blocked''"] normalize_tables[of "''critical''"]
       normalize_tables[of "''completed''"] l c
  show ?thesis by (simp add: priority_map_def status_map_def)
qed

subsection \<open>\<open>created_at\<close> under update and replacement\<close>

lemma assign_task_id_created_at:
  "assign_task_id st t = (t', st') \<Longrightarrow> created_at t' = created_at t \<and> store st' = store st"
  by (auto simp: assign_task_id_def split: if_splits)

lemma assign_ids_created_at:
  "assign_ids st ts = (ts', st') \<Longrightarrow> map created_at ts' = map created_at ts"
proof (induction ts arbitrary: st ts' st')
  case Nil
  then show ?case by simp
next
  case (Cons t ts)
  then show ?case
    by (auto simp: Let_def split: prod.splits dest: assign_task_id_created_at)
qed

lemma assign_task_id_store:
  "assign_task_id (st\<lparr>store := xs\<rparr>) t
     = (fst (assign_task_id st t), (snd (assign_task_id st t))\<lparr>store := xs\<rparr>)"
  by (simp add: assign_task_id_def)

lemma assign_ids_store:
  "assign_ids (st\<lparr>store := xs\<rparr>) ts
     = (fst (assign_ids st ts), (snd (assign_ids st ts))\<lparr>store := xs\<rparr>)"
proof (induction ts arbitrary: st)
  case Nil
  then show ?case by simp
next
  case (Cons t ts)
  show ?case
    by (simp add: assign_task_id_store Cons.IH Let_def split: prod.splits)
qed

lemma update_ignores_store:
  "update_tasks_from_llm lib clock (st\<lparr>store := xs\<rparr>) p = update_tasks_from_llm lib clock st p"
  by (simp add: update_tasks_from_llm_def assign_ids_store Let_def split: sum.splits prod.splits)

lemma convert_all_origin:
  "t \<in> set (convert_all lib clock i es) \<Longrightarrow>
     \<exists>k<length es. convert lib (clock (i + k)) (es ! k) = Some t"
proof (induction es arbitrary: i)
  case Nil
  then show ?case by simp
next
  case (Cons e es)
  show ?case
  proof (cases "convert lib (clock i) e = Some t")
    case True
    then have "convert lib (clock (i + 0)) ((e # es) ! 0) = Some t" by simp
    then show ?thesis by blast
  next
    case False
    with Cons.prems have "t \<in> set (convert_all lib clock (Suc i) es)"
      by (auto split: option.splits)
    from Cons.IH[OF this] obtain k where "k < length es"
      "convert lib (clock (Suc i + k)) (es ! k) = Some t" by blast
    then have "Suc k < length (e # es)" "convert lib (clock (i + Suc k)) ((e # es) ! Suc k) = Some t"
      by simp_all
    then show ?thesis by blast
  qed
qed

lemma convert_dict_created_at:
  "convert_dict lib now d = Some t \<Longrightarrow>
     (case map_of d ''created_at'' of
        None \<Rightarrow> created_at t = Some now
      | Some v \<Rightarrow> optional_str lib v = Some (created_at t))"
  by (auto simp: convert_dict_def split: if_splits bind_splits option.splits)

lemma convert_Some_dict:
  "convert lib now e = Some t \<Longrightarrow> \<exists>d. e = Value (JObj d) \<and> convert_dict lib now d = Some t"
  by (cases "(lib, now, e)" rule: convert.cases) auto

text \<open>
  C3, as claimed, fails: the store holds task 1 with \<open>created_at = T0\<close>; a replacement
  whose only fragment is task 1 again, without the key \<open>created_at\<close>, commits task 1
  with the clock's reading \<open>T9\<close>.
\<close>

theorem replacement_created_at_counterexample:
  "map_option created_at (get_task demo_manager 1) = Some (Some ''T0'')
   \<and> update_tasks_from_llm demo_library demo_clock demo_manager echo_without_created_at
       = Inr \<lparr>store = [new_task 1 ''complete project proposal'' ''T9''], next_id = 3\<rparr>
   \<and> map_option created_at
         (get_task \<lparr>store = [new_task 1 ''complete project proposal'' ''T9''], next_id = 3\<rparr> 1)
       = Some (Some ''T9'')"
  by code_simp

text \<open>
  C3, amended. \<open>update_task\<close> with a replacement whose \<open>created_at\<close> is unset keeps the
  \<open>created_at\<close> of the stored task. The full replacement does not read the old list:
  its outcome is the same for any prior content of the store, and the \<open>created_at\<close> of
  every committed task is the validated value under the key \<open>created_at\<close> of the
  dictionary it was converted from, or, when that key is missing, the clock's reading
  at the conversion.
\<close>

theorem created_at_on_update_and_replacement:
  "(get_task st i = Some old \<and> \<not> truthy (created_at u) \<longrightarrow>
      (\<exists>r st'. update_task st i u = (Some r, st') \<and> created_at r = created_at old))
   \<and> (update_tasks_from_llm lib clock st p = Inr st' \<longrightarrow>
        update_tasks_from_llm lib clock (st\<lparr>store := ts\<rparr>) p = Inr st'
        \<and> (\<forall>t\<in>set (store st'). \<exists>es k d.
              py_iter p = Inr es \<and> k < length es \<and> es ! k = Value (JObj d)
              \<and> (case map_of d ''created_at'' of
                    None \<Rightarrow> created_at t = Some (clock k)
                  | Some v \<Rightarrow> optional_str lib v = Some (created_at t))))"
proof (intro conjI impI ballI)
  assume a: "get_task st i = Some old \<and> \<not> truthy (created_at u)"
  then have "find (\<lambda>t. task_id t = Some i) (store st) = Some old"
    by (simp add: get_task_def)
  from find_update_first_Some[OF this, of u] a
  show "\<exists>r st'. update_task st i u = (Some r, st') \<and> created_at r = created_at old"
    by (auto simp: update_task_def)
next
  assume "update_tasks_from_llm lib clock st p = Inr st'"
  then show "update_tasks_from_llm lib clock (st\<lparr>store := ts\<rparr>) p = Inr st'"
    by (simp add: update_ignores_store)
next
  fix t
  assume u: "update_tasks_from_llm lib clock st p = Inr st'" and t: "t \<in> set (store st')"
  from u obtain es where es: "py_iter p = Inr es"
    by (auto simp: update_tasks_from_llm_def split: sum.splits)
  obtain new st1 where a: "assign_ids st (convert_all lib clock 0 es) = (new, st1)"
    by (cases "assign_ids st (convert_all lib clock 0 es)")
  with u es have s: "store st' = new" by (auto simp: update_tasks_from_llm_def)
  from assign_ids_created_at[OF a] have m: "map created_at new = map created_at (convert_all lib clock 0 es)" .
  from t s have "created_at t \<in> set (map created_at new)" by auto
  with m obtain t0 where t0: "t0 \<in> set (convert_all lib clock 0 es)" "created_at t0 = created_at t"
    by auto
  from convert_all_origin[OF t0(1)] obtain k where k: "k < length es"
    "convert lib (clock k) (es ! k) = Some t0" by auto
  from convert_Some_dict[OF k(2)] obtain d where d: "es ! k = Value (JObj d)"
    "convert_dict lib (clock k) d = Some t0" by blast
  from convert_dict_created_at[OF d(2)] t0(2)
  have "case map_of d ''created_at'' of
          None \<Rightarrow> created_at t = Some (clock k)
        | Some v \<Rightarrow> optional_str lib v = Some (created_at t)"
    by (simp split: option.splits)
  with es k(1) d(1)
  show "\<exists>es k d. py_iter p = Inr es \<and> k < length es \<and> es ! k = Value (JObj d)
              \<and> (case map_of d ''created_at'' of
                    None \<Rightarrow> created_at t = Some (clock k)
                  | Some v \<Rightarrow> optional_str lib v = Some (created_at t))"
    by blast
qed

theorem created_at_on_update_and_replacement_witness:
  "get_task demo_manager 2 = Some (new_task 2 ''buy groceries'' ''T0'')
   \<and> \<not> truthy (created_at ((new_task 9 ''buy oat milk'' ''T5'')\<lparr>created_at := Some []\<rparr>))
   \<and> (\<exists>r st'. update_task demo_manager 2 ((new_task 9 ''buy oat milk'' ''T5'')\<lparr>created_at := Some []\<rparr>)
                  = (Some r, st') \<and> created_at r = Some ''T0'')
   \<and> update_tasks_from_llm demo_library demo_clock demo_manager echo_and_new
       = Inr \<lparr>store = [new_task 1 ''complete project proposal'' ''T0'',
                        new_task 3 ''call mom'' ''T9''], next_id = 4\<rparr>
   \<and> update_tasks_from_llm demo_library demo_clock (demo_manager\<lparr>store := []\<rparr>) echo_and_new
       = Inr \<lparr>store = [new_task 1 ''complete project proposal'' ''T0'',
                        new_task 3 ''call mom'' ''T9''], next_id = 4\<rparr>"
proof -
  let ?u = "(new_task 9 ''buy oat milk'' ''T5'')\<lparr>created_at := Some []\<rparr>"
  let ?st' = "\<lparr>store = [new_task 1 ''complete project proposal'' ''T0'',
                        new_task 3 ''call mom'' ''T9''], next_id = 4\<rparr>"
  have g: "get_task demo_manager 2 = Some (new_task 2 ''buy groceries'' ''T0'')" by code_simp
  have t: "\<not> truthy (created_at ?u)" by code_simp
  have c: "created_at (new_task 2 ''buy groceries'' ''T0'') = Some ''T0''"
    by (simp add: new_task_def)
  have r: "update_tasks_from_llm demo_library demo_clock demo_manager echo_and_new = Inr ?st'"
    by code_simp
  from created_at_on_update_and_replacement[of demo_manager 2 "new_task 2 ''buy groceries'' ''T0''"
         ?u demo_library demo_clock echo_and_new ?st' "[]"] g t c r
  show ?thesis by auto
qed

subsection \<open>Identifiers\<close>

lemma increasing_below_mono: "increasing_below n ts \<Longrightarrow> n \<le> m \<Longrightarrow> increasing_below m ts"
  by (induction ts) (auto split: option.splits)

lemma increasing_below_all:
  "increasing_below n ts \<Longrightarrow> list_all (\<lambda>u. case task_id u of None \<Rightarrow> False | Some j \<Rightarrow> j < n) ts"
  by (induction ts) (auto split: option.splits)

lemma increasing_below_snoc:
  "increasing_below n ts \<Longrightarrow> task_id t = Some n \<Longrightarrow> increasing_below (n + 1) (ts @ [t])"
proof (induction ts)
  case Nil
  then show ?case by simp
next
  case (Cons a ts)
  then show ?case by (auto split: option.splits dest: increasing_below_mono)
qed

lemma delete_first_subset:
  "delete_first i ts = Some ts' \<Longrightarrow> set ts' \<subseteq> set ts"
  by (induction ts arbitrary: ts') (auto split: if_splits)

lemma increasing_below_delete:
  "increasing_below n ts \<Longrightarrow> delete_first i ts = Some ts' \<Longrightarrow> increasing_below n ts'"
proof (induction ts arbitrary: ts')
  case Nil
  then show ?case by simp
next
  case (Cons a ts)
  show ?case
  proof (cases "task_id a = Some i")
    case True
    with Cons.prems show ?thesis by (auto split: option.splits)
  next
    case False
    with Cons.prems obtain r where r: "delete_first i ts = Some r" "ts' = a # r" by auto
    from Cons.prems(1) have "increasing_below n ts" by (auto split: option.splits)
    from Cons.IH[OF this r(1)] have "increasing_below n r" .
    moreover from delete_first_subset[OF r(1)] Cons.prems(1)
    have "\<And>j. task_id a = Some j \<Longrightarrow> list_all (\<lambda>u. case task_id u of None \<Rightarrow> False | Some k \<Rightarrow> j < k) r"
      by (auto simp: list_all_iff split: option.splits)
    ultimately show ?thesis using Cons.prems(1) r(2) by (auto split: option.splits)
  qed
qed

lemma assign_ids_fresh:
  "list_all (\<lambda>t. task_id t = None) ts \<Longrightarrow> assign_ids st ts = (ts', st') \<Longrightarrow>
     increasing_below (next_id st') ts' \<and> next_id st \<le> next_id st'
     \<and> list_all (\<lambda>u. case task_id u of None \<Rightarrow> False | Some j \<Rightarrow> next_id st \<le> j) ts'"
proof (induction ts arbitrary: st ts' st')
  case Nil
  then show ?case by simp
next
  case (Cons t ts)
  let ?st1 = "st\<lparr>next_id := next_id st + 1\<rparr>"
  obtain r st2 where r: "assign_ids ?st1 ts = (r, st2)" by (cases "assign_ids ?st1 ts")
  from Cons.prems have n: "task_id t = None" "list_all (\<lambda>t. task_id t = None) ts" by auto
  from Cons.IH[OF n(2) r] have ih: "increasing_below (next_id st2) r" "next_id st + 1 \<le> next_id st2"
    "list_all (\<lambda>u. case task_id u of None \<Rightarrow> False | Some j \<Rightarrow> next_id st + 1 \<le> j) r"
    by (auto simp: list_all_iff split: option.splits)
  from Cons.prems(2) n(1) r have e: "ts' = t\<lparr>task_id := Some (next_id st)\<rparr> # r" "st' = st2"
    by (auto simp: assign_task_id_def)
  from ih(3) have "list_all (\<lambda>u. case task_id u of None \<Rightarrow> False | Some j \<Rightarrow> next_id st < j) r"
    by (auto simp: list_all_iff split: option.splits)
  moreover from ih(3) have "list_all (\<lambda>u. case task_id u of None \<Rightarrow> False | Some j \<Rightarrow> next_id st \<le> j) r"
    by (auto simp: list_all_iff split: option.splits)
  ultimately show ?case using ih e by auto
qed

lemma assign_ids_next_id: "assign_ids st ts = (ts', st') \<Longrightarrow> next_id st \<le> next_id st'"
proof (induction ts arbitrary: st ts' st')
  case Nil
  then show ?case by simp
next
  case (Cons t ts)
  obtain t1 st1 where a: "assign_task_id st t = (t1, st1)" by (cases "assign_task_id st t")
  obtain r st2 where r: "assign_ids st1 ts = (r, st2)" by (cases "assign_ids st1 ts")
  from a have "next_id st \<le> next_id st1" by (auto simp: assign_task_id_def split: if_splits)
  moreover from Cons.IH[OF r] have "next_id st1 \<le> next_id st2" .
  moreover from Cons.prems a r have "st' = st2" by simp
  ultimately show ?case by simp
qed

lemma apply_op_next_id: "next_id st \<le> next_id (apply_op lib clock st op)"
proof (cases op)
  case (Add t)
  then show ?thesis by (simp add: add_task_def assign_task_id_def)
next
  case (Delete i)
  then show ?thesis by (simp add: delete_task_def split: option.splits)
next
  case (Replace_all p)
  then show ?thesis
    by (auto simp: update_tasks_from_llm_def Let_def split: sum.splits prod.splits
             dest: assign_ids_next_id)
qed

lemma run_next_id: "next_id st \<le> next_id (run lib clock st ops)"
proof (induction ops arbitrary: st)
  case Nil
  then show ?case by (simp add: run_def)
next
  case (Cons op ops)
  from apply_op_next_id[of st lib clock op] Cons[of "apply_op lib clock st op"]
  show ?case by (simp add: run_def)
qed

lemma apply_op_increasing:
  assumes "ids_increasing st" and "without_id lib clock op"
  shows "ids_increasing (apply_op lib clock st op)"
proof (cases op)
  case (Add t)
  with assms show ?thesis
    by (simp add: ids_increasing_def add_task_def assign_task_id_def increasing_below_snoc)
next
  case (Delete i)
  with assms show ?thesis
    by (auto simp: ids_increasing_def delete_task_def split: option.splits
             dest: increasing_below_delete)
next
  case (Replace_all p)
  show ?thesis
  proof (cases "py_iter p")
    case (Inl e)
    with Replace_all assms show ?thesis by (simp add: update_tasks_from_llm_def)
  next
    case (Inr es)
    obtain new st1 where a: "assign_ids st (convert_all lib clock 0 es) = (new, st1)"
      by (cases "assign_ids st (convert_all lib clock 0 es)")
    from assms(2) Replace_all Inr have "list_all (\<lambda>t. task_id t = None) (convert_all lib clock 0 es)"
      by simp
    from assign_ids_fresh[OF this a] have "increasing_below (next_id st1) new" by simp
    with Replace_all Inr a show ?thesis
      by (simp add: update_tasks_from_llm_def ids_increasing_def)
  qed
qed

lemma run_increasing:
  "ids_increasing st \<Longrightarrow> list_all (without_id lib clock) ops \<Longrightarrow> ids_increasing (run lib clock st ops)"
proof (induction ops arbitrary: st)
  case Nil
  then show ?case by (simp add: run_def)
next
  case (Cons op ops)
  from Cons.prems have "ids_increasing (apply_op lib clock st op)"
    by (simp add: apply_op_increasing)
  from Cons.IH[OF this] Cons.prems(2) show ?case by (simp add: run_def)
qed

text \<open>
  C4, as claimed, fails. A task that arrives with an identifier keeps it: after adding
  a task without identifier and then a task that carries the identifier 1, the store
  holds two tasks with identifier 1. And an identifier that came with a fragment is not
  below the counter: after a replacement that brings task 1 and a replacement by the
  empty list, the next add assigns 1 again.
\<close>

theorem ids_with_given_id_counterexample:
  "map task_id (store (run demo_library demo_clock init_manager
                         [Add (unsaved_task ''call mom''), Add (new_task 1 ''buy milk'' ''T0'')]))
     = [Some 1, Some 1]
   \<and> map task_id (store (run demo_library demo_clock init_manager [Replace_all echo_task_1]))
     = [Some 1]
   \<and> store (run demo_library demo_clock init_manager
                [Replace_all echo_task_1, Replace_all (Decoded (JArr []))]) = []
   \<and> map task_id (store (run demo_library demo_clock init_manager
                         [Replace_all echo_task_1, Replace_all (Decoded (JArr [])),
                          Add (unsaved_task ''buy milk'')]))
     = [Some 1]"
  by code_simp

text \<open>
  C4, amended. Two tasks added without identifier, with any sequence of add, delete and
  replacement calls between them, get identifiers from the counter, the later one
  strictly greater. The counter never decreases. The replacement by the empty list
  empties the store and leaves the counter as it is. If the identifiers of the store
  strictly increase along the list and lie below the counter, they still do after any
  sequence of calls that bring no identifier of their own.
\<close>

theorem assigned_ids_strictly_increase:
  "(task_id t1 = None \<and> task_id t2 = None \<longrightarrow>
      (\<exists>j1 j2. task_id (fst (add_task st t1)) = Some j1
         \<and> task_id (fst (add_task (run lib clock (snd (add_task st t1)) ops) t2)) = Some j2
         \<and> j1 < j2))
   \<and> next_id st \<le> next_id (run lib clock st ops)
   \<and> update_tasks_from_llm lib clock st (Decoded (JArr [])) = Inr (st\<lparr>store := []\<rparr>)
   \<and> (ids_increasing st \<and> list_all (without_id lib clock) ops
        \<longrightarrow> ids_increasing (run lib clock st ops))"
proof (intro conjI impI)
  assume a: "task_id t1 = None \<and> task_id t2 = None"
  let ?st1 = "snd (add_task st t1)"
  let ?st2 = "run lib clock ?st1 ops"
  from a have 1: "task_id (fst (add_task st t1)) = Some (next_id st)"
    and n: "next_id ?st1 = next_id st + 1"
    by (simp_all add: add_task_def assign_task_id_def)
  from a have 2: "task_id (fst (add_task ?st2 t2)) = Some (next_id ?st2)"
    by (simp add: add_task_def assign_task_id_def)
  from run_next_id[of ?st1 lib clock ops] n have "next_id st < next_id ?st2" by simp
  with 1 2 show "\<exists>j1 j2. task_id (fst (add_task st t1)) = Some j1
         \<and> task_id (fst (add_task (run lib clock (snd (add_task st t1)) ops) t2)) = Some j2
         \<and> j1 < j2"
    by blast
next
  show "next_id st \<le> next_id (run lib clock st ops)" by (rule run_next_id)
next
  show "update_tasks_from_llm lib clock st (Decoded (JArr [])) = Inr (st\<lparr>store := []\<rparr>)"
    by (simp add: update_tasks_from_llm_def)
next
  assume "ids_increasing st \<and> list_all (without_id lib clock) ops"
  then show "ids_increasing (run lib clock st ops)" by (simp add: run_increasing)
qed

theorem assigned_ids_strictly_increase_witness:
  "task_id (unsaved_task ''call mom'') = None \<and> task_id (unsaved_task ''buy milk'') = None
   \<and> task_id (fst (add_task init_manager (unsaved_task ''call mom''))) = Some 1
   \<and> task_id (fst (add_task (run demo_library demo_clock
                       (snd (add_task init_manager (unsaved_task ''call mom''))) demo_ops)
                     (unsaved_task ''buy milk''))) = Some 3
   \<and> ids_increasing init_manager
   \<and> list_all (without_id demo_library demo_clock) demo_ops
   \<and> ids_increasing (run demo_library demo_clock init_manager demo_ops)
   \<and> update_tasks_from_llm demo_library demo_clock demo_manager (Decoded (JArr []))
       = Inr \<lparr>store = [], next_id = 3\<rparr>"
proof -
  have a: "task_id (unsaved_task ''call mom'') = None \<and> task_id (unsaved_task ''buy milk'') = None"
    by code_simp
  have b: "task_id (fst (add_task init_manager (unsaved_task ''call mom''))) = Some 1"
    by code_simp
  have c: "task_id (fst (add_task (run demo_library demo_clock
                       (snd (add_task init_manager (unsaved_task ''call mom''))) demo_ops)
                     (unsaved_task ''buy milk''))) = Some 3"
    by code_simp
  have d: "ids_increasing init_manager" by code_simp
  have e: "list_all (without_id demo_library demo_clock) demo_ops" by code_simp
  have f: "demo_manager\<lparr>store := []\<rparr> = \<lparr>store = [], next_id = 3\<rparr>" by code_simp
  from assigned_ids_strictly_increase[of "unsaved_task ''call mom''" "unsaved_task ''buy milk''"
         init_manager demo_library demo_clock demo_ops]
       assigned_ids_strictly_increase[of "unsaved_task ''call mom''" "unsaved_task ''buy milk''"
         demo_manager demo_library demo_clock demo_ops]
       a b c d e f
  show ?thesis by simp
qed

subsection \<open>Extraction of the JSON text from the LLM's answer\<close>

lemma split_at_Some: "p \<noteq> [] \<Longrightarrow> split_at p s = Some (a, b) \<Longrightarrow> s = a @ p @ b"
proof (induction s arbitrary: a)
  case Nil
  then show ?case by simp
next
  case (Cons c cs)
  show ?case
  proof (cases "starts_with p (c # cs)")
    case True
    then have "c # cs = p @ drop (length p) (c # cs)"
      by (metis append_take_drop_id starts_with_def)
    with True Cons.prems show ?thesis by simp
  next
    case False
    with Cons.prems obtain a0 where "split_at p cs = Some (a0, b)" "a = c # a0"
      by (auto split: option.splits)
    with Cons.IH[OF Cons.prems(1), of a0] show ?thesis by simp
  qed
qed

lemma starts_with_append: "starts_with p (p @ b)"
  by (simp add: starts_with_def)

lemma split_at_leftmost:
  "p \<noteq> [] \<Longrightarrow> split_at p s = Some (a, b) \<Longrightarrow> s = a' @ p @ b' \<Longrightarrow> length a \<le> length a'"
proof (induction s arbitrary: a a')
  case Nil
  then show ?case by simp
next
  case (Cons c cs)
  show ?case
  proof (cases "starts_with p (c # cs)")
    case True
    with Cons.prems(2) have "a = []" by simp
    then show ?thesis by simp
  next
    case False
    with Cons.prems(2) obtain a0 where a0: "split_at p cs = Some (a0, b)" "a = c # a0"
      by (auto split: option.splits)
    from False Cons.prems(3) have "a' \<noteq> []" using starts_with_append by force
    with Cons.prems(3) obtain a1 where a1: "a' = c # a1" "cs = a1 @ p @ b'"
      by (cases a') auto
    from Cons.IH[OF Cons.prems(1) a0(1) a1(2)] a0(2) a1(1) show ?thesis by simp
  qed
qed

lemma split_at_exists: "p \<noteq> [] \<Longrightarrow> s = a @ p @ b \<Longrightarrow> \<exists>a' b'. split_at p s = Some (a', b')"
proof (induction a arbitrary: s)
  case Nil
  then have "s \<noteq> []" by simp
  then obtain c cs where c: "s = c # cs" by (cases s) auto
  from Nil have "starts_with p s" by (simp add: starts_with_append)
  with c have "split_at p s = Some ([], drop (length p) s)" by simp
  then show ?case by blast
next
  case (Cons x a)
  from Cons.IH[OF Cons.prems(1), of "a @ p @ b"] obtain a' b' where "split_at p (a @ p @ b) = Some (a', b')"
    by blast
  then have "\<exists>a' b'. split_at p (x # a @ p @ b) = Some (a', b')" by auto
  with Cons.prems(2) show ?case by simp
qed

lemma split_at_None: "p \<noteq> [] \<Longrightarrow> \<not> (\<exists>a b. s = a @ p @ b) \<Longrightarrow> split_at p s = None"
  by (cases "split_at p s") (auto dest: split_at_Some)

text \<open>The leftmost occurrence, given as a decomposition.\<close>

lemma split_at_decomposition:
  assumes "p \<noteq> []" and "s = a @ p @ b"
    and "\<forall>a' b'. s = a' @ p @ b' \<longrightarrow> length a \<le> length a'"
  shows "split_at p s = Some (a, b)"
proof -
  from split_at_exists[OF assms(1,2)] obtain a0 b0 where s: "split_at p s = Some (a0, b0)"
    by blast
  from split_at_Some[OF assms(1) s] have e: "s = a0 @ p @ b0" .
  with assms(3) have "length a \<le> length a0" by blast
  moreover from split_at_leftmost[OF assms(1) s assms(2)] have "length a0 \<le> length a" .
  ultimately have "length a = length a0" by simp
  with e assms(2) have "a = a0 \<and> b = b0" by (metis append_eq_append_conv same_append_eq)
  with s show ?thesis by simp
qed


lemma backtick_no_space: "\<not> is_space (CHR 0x60)"
  by (simp add: is_space_def)

lemma dropWhile_all: "\<forall>x\<in>set xs. P x \<Longrightarrow> dropWhile P (xs @ ys) = dropWhile P ys"
  by (induction xs) simp_all

lemma lstrip_spaces: "\<forall>c\<in>set ws. is_space c \<Longrightarrow> lstrip (ws @ s) = lstrip s"
  by (simp add: lstrip_def dropWhile_all)

lemma lstrip_no_space: "s \<noteq> [] \<Longrightarrow> \<not> is_space (hd s) \<Longrightarrow> lstrip s = s"
  by (cases s) (simp_all add: lstrip_def)

lemma rstrip_spaces:
  assumes "\<forall>c\<in>set ws. is_space c" and "j \<noteq> [] \<longrightarrow> \<not> is_space (last j)"
  shows "rstrip (j @ ws) = j"
proof -
  from assms(1) have "dropWhile is_space (rev ws @ rev j) = dropWhile is_space (rev j)"
    by (simp add: dropWhile_all)
  moreover from assms(2) have "dropWhile is_space (rev j) = rev j"
    by (cases "rev j") (auto simp: hd_rev[symmetric])
  ultimately show ?thesis by (simp add: rstrip_def)
qed

lemma fenced_block_found:
  assumes d: "text = pre @ ''```json'' @ ws @ j @ ws' @ ''```'' @ post"
    and f: "\<forall>a b. text = a @ ''```json'' @ b \<longrightarrow> length pre \<le> length a"
    and w: "\<forall>c\<in>set ws. is_space c" and w': "\<forall>c\<in>set ws'. is_space c"
    and js: "j \<noteq> [] \<longrightarrow> \<not> is_space (hd j) \<and> \<not> is_space (last j)"
    and n: "\<forall>a b. j @ ws' @ ''```'' @ post = a @ ''```'' @ b \<longrightarrow> length (j @ ws') \<le> length a"
  shows "fenced_block text = Some j"
proof -
  have 1: "split_at ''```json'' text = Some (pre, ws @ j @ ws' @ ''```'' @ post)"
    using d f by (intro split_at_decomposition) auto
  have 2: "\<exists>body rest. split_at ''```'' (lstrip (ws @ j @ ws' @ ''```'' @ post)) = Some (body, rest)
              \<and> rstrip body = j"
  proof (cases "j = []")
    case True
    from w w' have "lstrip (ws @ j @ ws' @ ''```'' @ post) = lstrip (''```'' @ post)"
      using True by (simp add: lstrip_spaces)
    also have "\<dots> = ''```'' @ post" by (simp add: lstrip_def backtick_no_space)
    finally have "lstrip (ws @ j @ ws' @ ''```'' @ post) = ''```'' @ post" .
    moreover have "split_at ''```'' (''```'' @ post) = Some ([], post)"
      by (simp add: starts_with_def)
    moreover have "rstrip [] = j" using True by (simp add: rstrip_def)
    ultimately show ?thesis by simp
  next
    case False
    with js w have "lstrip (ws @ j @ ws' @ ''```'' @ post) = j @ ws' @ ''```'' @ post"
      by (simp add: lstrip_spaces lstrip_no_space)
    moreover have "split_at ''```'' (j @ ws' @ ''```'' @ post) = Some (j @ ws', post)"
      using n by (intro split_at_decomposition) auto
    moreover from w' js have "rstrip (j @ ws') = j" by (simp add: rstrip_spaces)
    ultimately show ?thesis by simp
  qed
  from 1 2 show ?thesis by (auto simp: fenced_block_def)
qed

lemma fenced_block_Some_decomposition:
  assumes "fenced_block text = Some j"
  shows "\<exists>a b c. text = a @ ''```json'' @ b @ ''```'' @ c"
proof -
  from assms obtain pre rest where 1: "split_at ''```json'' text = Some (pre, rest)"
    by (auto simp: fenced_block_def split: option.splits)
  with assms obtain body c where 2: "split_at ''```'' (lstrip rest) = Some (body, c)"
    by (auto simp: fenced_block_def split: option.splits)
  from split_at_Some[OF _ 1] have t: "text = pre @ ''```json'' @ rest" by simp
  from split_at_Some[OF _ 2] have l: "lstrip rest = body @ ''```'' @ c" by simp
  have "rest = takeWhile is_space rest @ lstrip rest" by (simp add: lstrip_def)
  with l have "rest = (takeWhile is_space rest @ body) @ ''```'' @ c" by simp
  with t have "text = pre @ ''```json'' @ (takeWhile is_space rest @ body) @ ''```'' @ c"
    by simp
  then show ?thesis by blast
qed

lemma brace_span_found:
  assumes "text = pre @ ''{'' @ mid @ ''}'' @ post"
    and "CHR ''{'' \<notin> set pre" and "CHR ''}'' \<notin> set post"
  shows "brace_span text = Some (''{'' @ mid @ ''}'')"
proof -
  from assms(2) have "dropWhile (\<lambda>c. c \<noteq> CHR ''{'') (pre @ ''{'' @ mid @ ''}'' @ post)
                        = dropWhile (\<lambda>c. c \<noteq> CHR ''{'') (''{'' @ mid @ ''}'' @ post)"
    by (intro dropWhile_all) auto
  with assms(1) have r: "dropWhile (\<lambda>c. c \<noteq> CHR ''{'') text = ''{'' @ mid @ ''}'' @ post"
    by simp
  have "rev (''{'' @ mid @ ''}'' @ post) = rev post @ (''}'' @ rev mid @ ''{'')" by simp
  moreover from assms(3)
  have "dropWhile (\<lambda>c. c \<noteq> CHR ''}'') (rev post @ (''}'' @ rev mid @ ''{''))
          = dropWhile (\<lambda>c. c \<noteq> CHR ''}'') (''}'' @ rev mid @ ''{'')"
    by (intro dropWhile_all) auto
  ultimately have "dropWhile (\<lambda>c. c \<noteq> CHR ''}'') (rev (''{'' @ mid @ ''}'' @ post))
                       = ''}'' @ rev mid @ ''{''"
    by simp
  then have "rev (dropWhile (\<lambda>c. c \<noteq> CHR ''}'') (rev (''{'' @ mid @ ''}'' @ post)))
               = ''{'' @ mid @ ''}''"
    by simp
  with r show ?thesis by (simp add: brace_span_def)
qed

lemma brace_span_Some_decomposition:
  assumes "brace_span text = Some x"
  shows "\<exists>a b c. text = a @ ''{'' @ b @ ''}'' @ c"
proof -
  let ?r = "dropWhile (\<lambda>c. c \<noteq> CHR ''{'') text"
  from assms have m: "CHR ''}'' \<in> set ?r" by (auto simp: brace_span_def Let_def split: if_splits)
  then have ne: "?r \<noteq> []" by (metis empty_iff empty_set)
  then have "\<not> hd ?r \<noteq> CHR ''{''" by (rule hd_dropWhile)
  with ne obtain r' where r': "?r = CHR ''{'' # r'" by (cases ?r) auto
  with m have "CHR ''}'' \<in> set r'" by auto
  then obtain b c where "r' = b @ CHR ''}'' # c" by (auto simp: in_set_conv_decomp)
  with r' have "?r = ''{'' @ b @ ''}'' @ c" by simp
  moreover have "text = takeWhile (\<lambda>c. c \<noteq> CHR ''{'') text @ ?r" by simp
  ultimately have "text = takeWhile (\<lambda>c. c \<noteq> CHR ''{'') text @ ''{'' @ b @ ''}'' @ c" by simp
  then show ?thesis by blast
qed

lemma occurs_contains: "s = a @ p @ b \<Longrightarrow> contains p s"
proof (induction a arbitrary: s)
  case Nil
  then have "starts_with p s" by (simp add: starts_with_append)
  then show ?case by (cases s) (simp_all add: starts_with_def)
next
  case (Cons x a)
  then show ?case by auto
qed

text \<open>
  C6, as claimed, fails in its second pattern: on an answer with two objects and no
  fenced block the interpreter takes the text from the first \<open>{\<close> to the last \<open>}\<close>,
  both objects and what lies between them, not the first top-level span.
\<close>

theorem first_brace_span_counterexample:
  "fenced_block two_objects = None
   \<and> extract_json two_objects = Some two_objects
   \<and> spec_first_top_level_span two_objects = Some ''{\"action\": \"LIST\"}''
   \<and> extract_json two_objects \<noteq> spec_first_top_level_span two_objects"
  by code_simp

text \<open>
  C6, amended. If the text has a fenced block labeled \<open>json\<close>, the interpreter takes the
  content of the first one: the text between the leftmost \<open>```json\<close> and the next
  \<open>```\<close>, without the whitespace around it. If the text has no \<open>```json\<close> followed by
  \<open>```\<close>, it takes the text from the first \<open>{\<close> to the last \<open>}\<close>. If the text has
  neither, the interpreter returns the failure result with the message
  \<open>Failed to parse LLM response\<close> and the task list it was given.
\<close>

theorem extract_json_order:
  "(text = pre @ ''```json'' @ ws @ j @ ws' @ ''```'' @ post
      \<and> (\<forall>a b. text = a @ ''```json'' @ b \<longrightarrow> length pre \<le> length a)
      \<and> (\<forall>c\<in>set ws. is_space c) \<and> (\<forall>c\<in>set ws'. is_space c)
      \<and> (j \<noteq> [] \<longrightarrow> \<not> is_space (hd j) \<and> \<not> is_space (last j))
      \<and> (\<forall>a b. j @ ws' @ ''```'' @ post = a @ ''```'' @ b \<longrightarrow> length (j @ ws') \<le> length a)
     \<longrightarrow> extract_json text = Some j)
   \<and> (\<not> (\<exists>a b c. text = a @ ''```json'' @ b @ ''```'' @ c)
        \<and> text = pre @ ''{'' @ mid @ ''}'' @ post
        \<and> CHR ''{'' \<notin> set pre \<and> CHR ''}'' \<notin> set post
       \<longrightarrow> extract_json text = Some (''{'' @ mid @ ''}''))
   \<and> (\<not> (\<exists>a b c. text = a @ ''```json'' @ b @ ''```'' @ c)
        \<and> \<not> (\<exists>a b c. text = a @ ''{'' @ b @ ''}'' @ c)
       \<longrightarrow> extract_json text = None
           \<and> llm_process_command lib command ts (ResponseText text)
               = \<lparr>success = False, message = JStr ''Failed to parse LLM response'',
                  tasks = Objects ts, action = None\<rparr>)"
proof (intro conjI impI)
  assume "text = pre @ ''```json'' @ ws @ j @ ws' @ ''```'' @ post
      \<and> (\<forall>a b. text = a @ ''```json'' @ b \<longrightarrow> length pre \<le> length a)
      \<and> (\<forall>c\<in>set ws. is_space c) \<and> (\<forall>c\<in>set ws'. is_space c)
      \<and> (j \<noteq> [] \<longrightarrow> \<not> is_space (hd j) \<and> \<not> is_space (last j))
      \<and> (\<forall>a b. j @ ws' @ ''```'' @ post = a @ ''```'' @ b \<longrightarrow> length (j @ ws') \<le> length a)"
  then have "fenced_block text = Some j" by (intro fenced_block_found) blast+
  then show "extract_json text = Some j" by (simp add: extract_json_def)
next
  assume a: "\<not> (\<exists>a b c. text = a @ ''```json'' @ b @ ''```'' @ c)
        \<and> text = pre @ ''{'' @ mid @ ''}'' @ post
        \<and> CHR ''{'' \<notin> set pre \<and> CHR ''}'' \<notin> set post"
  then have "fenced_block text = None"
    using fenced_block_Some_decomposition[of "text"] by (cases "fenced_block text") auto
  moreover from a have "brace_span text = Some (''{'' @ mid @ ''}'')"
    by (intro brace_span_found) blast+
  ultimately show "extract_json text = Some (''{'' @ mid @ ''}'')"
    by (simp add: extract_json_def)
next
  assume a: "\<not> (\<exists>a b c. text = a @ ''```json'' @ b @ ''```'' @ c)
        \<and> \<not> (\<exists>a b c. text = a @ ''{'' @ b @ ''}'' @ c)"
  then have "fenced_block text = None"
    using fenced_block_Some_decomposition[of "text"] by (cases "fenced_block text") auto
  moreover from a have "brace_span text = None"
    using brace_span_Some_decomposition[of "text"] by (cases "brace_span text") auto
  ultimately have e: "extract_json text = None" by (simp add: extract_json_def)
  then show "extract_json text = None" .
  from e show "llm_process_command lib command ts (ResponseText text)
               = \<lparr>success = False, message = JStr ''Failed to parse LLM response'',
                  tasks = Objects ts, action = None\<rparr>"
    by (simp add: llm_process_command_def failure_def)
qed

theorem extract_json_order_witness:
  "extract_json fenced_answer = Some ''{\"tasks\": 5}''
   \<and> extract_json bare_answer = Some ''{\"tasks\": 5}''
   \<and> extract_json prose_answer = None
   \<and> llm_process_command demo_library ''list'' (store demo_manager) (ResponseText prose_answer)
       = \<lparr>success = False, message = JStr ''Failed to parse LLM response'',
          tasks = Objects (store demo_manager), action = None\<rparr>"
proof -
  let ?j = "''{\"tasks\": 5}''"
  have d1: "fenced_answer = ''Sure: '' @ ''```json'' @ ''  '' @ ?j @ ''  '' @ ''```'' @ '' done''"
    by (simp add: fenced_answer_def)
  have s1: "split_at ''```json'' fenced_answer = Some (''Sure: '', ''  '' @ ?j @ ''  '' @ ''```'' @ '' done'')"
    by code_simp
  have f1: "\<forall>a b. fenced_answer = a @ ''```json'' @ b \<longrightarrow> length ''Sure: '' \<le> length a"
    using split_at_leftmost[OF _ s1] by blast
  have s2: "split_at ''```'' (?j @ ''  '' @ ''```'' @ '' done'') = Some (?j @ ''  '', '' done'')"
    by code_simp
  have n1: "\<forall>a b. ?j @ ''  '' @ ''```'' @ '' done'' = a @ ''```'' @ b \<longrightarrow> length (?j @ ''  '') \<le> length a"
    using split_at_leftmost[OF _ s2] by blast
  have w1: "\<forall>c\<in>set ''  ''. is_space c" by (simp add: is_space_def)
  have j1: "?j \<noteq> [] \<longrightarrow> \<not> is_space (hd ?j) \<and> \<not> is_space (last ?j)" by (simp add: is_space_def)
  have c2: "\<not> contains ''```json'' bare_answer" by code_simp
  have nf2: "\<not> (\<exists>a b c. bare_answer = a @ ''```json'' @ b @ ''```'' @ c)"
    using c2 occurs_contains by blast
  have d2: "bare_answer = ''Here you go: '' @ ''{'' @ ''\"tasks\": 5'' @ ''}'' @ '' bye''"
    by (simp add: bare_answer_def)
  have b2: "CHR ''{'' \<notin> set ''Here you go: ''" "CHR ''}'' \<notin> set '' bye''" by simp_all
  have c3: "\<not> contains ''```json'' prose_answer" "\<not> contains ''{'' prose_answer" by code_simp+
  have nf3: "\<not> (\<exists>a b c. prose_answer = a @ ''```json'' @ b @ ''```'' @ c)"
    using c3(1) occurs_contains by blast
  have nb3: "\<not> (\<exists>a b c. prose_answer = a @ ''{'' @ b @ ''}'' @ c)"
    using c3(2) occurs_contains by blast
  from extract_json_order[of fenced_answer "''Sure: ''" "''  ''" ?j "''  ''" "'' done''"]
       d1 f1 w1 j1 n1
  have 1: "extract_json fenced_answer = Some ?j" by blast
  from extract_json_order[of bare_answer "''Here you go: ''" _ _ _ "'' bye''" "''\"tasks\": 5''"]
       nf2 d2 b2
  have 2: "extract_json bare_answer = Some (''{'' @ ''\"tasks\": 5'' @ ''}'')" by blast
  from extract_json_order[of prose_answer _ _ _ _ _ _ demo_library "''list''" "store demo_manager"]
       nf3 nb3
  have 3: "extract_json prose_answer = None
           \<and> llm_process_command demo_library ''list'' (store demo_manager) (ResponseText prose_answer)
               = \<lparr>success = False, message = JStr ''Failed to parse LLM response'',
                  tasks = Objects (store demo_manager), action = None\<rparr>" by blast
  from 1 2 3 show ?thesis by simp
qed

end
